theory Spec2Isabelle
  imports Complex_Main
begin

section \<open>Exceptions of the Python code, as values\<close>

text \<open>
  The tracker and the filter raise no exception of their own; the ones below are the
  built-in exceptions that list indexing, float division and arithmetic on \<open>None\<close> raise.
  Floats are modelled as reals.
\<close>

datatype error = IndexError | ZeroDivisionError | TypeError

section \<open>filter.py: the speed-adaptive low-pass filter\<close>

text \<open>
  The fields of class \<open>OneEuroFilter\<close>. \<open>_x_prev\<close> and \<open>_t_prev\<close> start as \<open>None\<close>.
\<close>

record one_euro_filter =
  min_cutoff :: real
  beta :: real
  d_cutoff :: real
  x_prev :: "real option"
  dx_prev :: real
  t_prev :: "real option"

text \<open>\<open>OneEuroFilter.__init__(min_cutoff, beta, d_cutoff)\<close>.\<close>

definition OneEuroFilter_init :: "real \<Rightarrow> real \<Rightarrow> real \<Rightarrow> one_euro_filter" where
  "OneEuroFilter_init mc b dc =
     \<lparr>min_cutoff = mc, beta = b, d_cutoff = dc,
      x_prev = None, dx_prev = 0, t_prev = None\<rparr>"

text \<open>
  \<open>OneEuroFilter._alpha(cutoff, dt)\<close>: two float divisions, each of which raises
  \<open>ZeroDivisionError\<close> on a zero divisor, and a third for the result.
\<close>

definition alpha :: "real \<Rightarrow> real \<Rightarrow> error + real" where
  "alpha cutoff dt =
     (if 2 * pi * cutoff = 0 then Inl ZeroDivisionError
      else
        let tau = 1 / (2 * pi * cutoff) in
        if dt = 0 then Inl ZeroDivisionError
        else if 1 + tau / dt = 0 then Inl ZeroDivisionError
        else Inr (1 / (1 + tau / dt)))"

text \<open>
  \<open>OneEuroFilter.__call__(x, t)\<close> with the timestamp given (the tracker always passes it).
  The result is the returned value and the filter after the call. The value returned on
  \<open>dt \<le> 0\<close> is the field \<open>_x_prev\<close> itself, hence an option; \<open>x - self._x_prev\<close> on a
  \<open>None\<close> field raises \<open>TypeError\<close>.
\<close>

definition filter_call ::
    "one_euro_filter \<Rightarrow> real \<Rightarrow> real \<Rightarrow> error + (real option \<times> one_euro_filter)" where
  "filter_call f x t =
     (case t_prev f of
        None \<Rightarrow> Inr (Some x, f\<lparr>x_prev := Some x, t_prev := Some t\<rparr>)
      | Some tp \<Rightarrow>
          let dt = t - tp in
          if dt \<le> 0 then Inr (x_prev f, f)
          else
            (case x_prev f of
               None \<Rightarrow> Inl TypeError
             | Some xp \<Rightarrow>
                 let dx = (x - xp) / dt in
                 (case alpha (d_cutoff f) dt of
                    Inl e \<Rightarrow> Inl e
                  | Inr a_d \<Rightarrow>
                      let dx_hat = a_d * dx + (1 - a_d) * dx_prev f;
                          cutoff = min_cutoff f + beta f * \<bar>dx_hat\<bar>
                      in
                      (case alpha cutoff dt of
                         Inl e \<Rightarrow> Inl e
                       | Inr a \<Rightarrow>
                           let x_hat = a * x + (1 - a) * xp in
                           Inr (Some x_hat,
                                f\<lparr>x_prev := Some x_hat, dx_prev := dx_hat,
                                  t_prev := Some t\<rparr>)))))"

text \<open>\<open>OneEuroFilter.reset()\<close>.\<close>

definition filter_reset :: "one_euro_filter \<Rightarrow> one_euro_filter" where
  "filter_reset f = f\<lparr>x_prev := None, dx_prev := 0, t_prev := None\<rparr>"

section \<open>tracker.py: data\<close>

text \<open>
  A landmark of the detector: the attributes \<open>x\<close>, \<open>y\<close>, \<open>z\<close> that the tracker reads.
\<close>

record landmark =
  lm_x :: real
  lm_y :: real
  lm_z :: real

text \<open>Dataclass \<open>HandState\<close> (fields \<open>x\<close> and \<open>y\<close> are \<open>hs_x\<close> and \<open>hs_y\<close> here).\<close>

record hand_state =
  hs_x :: real
  hs_y :: real
  click_left :: bool
  click_right :: bool
  is_fist :: bool
  is_peace :: bool
  is_open_palm :: bool
  velocity :: real
  detected :: bool
  landmarks :: "(real \<times> real) list"

definition HandState :: hand_state where
  "HandState =
     \<lparr>hs_x = 0, hs_y = 0, click_left = False, click_right = False, is_fist = False,
      is_peace = False, is_open_palm = False, velocity = 0, detected = False,
      landmarks = []\<rparr>"

text \<open>Dataclass \<open>TrackerState\<close>.\<close>

record tracker_state =
  primary :: hand_state
  secondary :: hand_state
  num_hands :: nat
  fps :: real

definition TrackerState :: tracker_state where
  "TrackerState = \<lparr>primary = HandState, secondary = HandState, num_hands = 0, fps = 0\<rparr>"

text \<open>
  The entries of \<open>_idx_state\<close> and \<open>_mid_state\<close> are only ever the strings \<open>"open"\<close> and
  \<open>"pinched"\<close>.
\<close>

datatype pinch_state = Open | Pinched

text \<open>
  The fields of \<open>HandTracker\<close> that the pipeline reads and writes. Every per-hand field is
  a Python list of length 2, indexed by the hand slot; the counters start at 0 and are
  only incremented or reset to 0, hence naturals. The detector, the capture device, the
  thread and the lock are not part of the model.
\<close>

record hand_tracker =
  state :: tracker_state
  filt_x :: "one_euro_filter list"
  filt_y :: "one_euro_filter list"
  filt_d_idx :: "one_euro_filter list"
  filt_d_mid :: "one_euro_filter list"
  prev_x :: "real list"
  prev_y :: "real list"
  prev_t :: "real list"
  idx_state :: "pinch_state list"
  mid_state :: "pinch_state list"
  idx_count :: "nat list"
  mid_count :: "nat list"
  idx_exit :: "nat list"
  mid_exit :: "nat list"
  last_lclick :: "real list"
  last_rclick :: "real list"
  fist_cnt :: "nat list"
  ftimes :: "real list"

text \<open>The class constants.\<close>

definition PINCH_ENTER :: real where "PINCH_ENTER = 0.28"
definition PINCH_EXIT :: real where "PINCH_EXIT = 0.50"
definition DEBOUNCE :: nat where "DEBOUNCE = 4"
definition COOLDOWN :: real where "COOLDOWN = 0.45"
definition Z_WEIGHT :: real where "Z_WEIGHT = 0.5"

text \<open>
  \<open>HandTracker.__init__\<close>; the argument is the value of \<open>time.perf_counter()\<close> that the
  constructor stores in \<open>_prev_t\<close>.
\<close>

definition HandTracker_init :: "real \<Rightarrow> hand_tracker" where
  "HandTracker_init t_c =
     \<lparr>state = TrackerState,
      filt_x = [OneEuroFilter_init 1.5 0.01 1, OneEuroFilter_init 1.5 0.01 1],
      filt_y = [OneEuroFilter_init 1.5 0.01 1, OneEuroFilter_init 1.5 0.01 1],
      filt_d_idx = [OneEuroFilter_init 0.5 0.003 1, OneEuroFilter_init 0.5 0.003 1],
      filt_d_mid = [OneEuroFilter_init 0.5 0.003 1, OneEuroFilter_init 0.5 0.003 1],
      prev_x = [0.5, 0.5],
      prev_y = [0.5, 0.5],
      prev_t = [t_c, t_c],
      idx_state = [Open, Open],
      mid_state = [Open, Open],
      idx_count = [0, 0],
      mid_count = [0, 0],
      idx_exit = [0, 0],
      mid_exit = [0, 0],
      last_lclick = [0, 0],
      last_rclick = [0, 0],
      fist_cnt = [0, 0],
      ftimes = []\<rparr>"

text \<open>\<open>HandTracker.get_state\<close>: a field-by-field copy of the published state.\<close>

definition get_state :: "hand_tracker \<Rightarrow> tracker_state" where
  "get_state tr =
     \<lparr>primary = primary (state tr), secondary = secondary (state tr),
      num_hands = num_hands (state tr), fps = fps (state tr)\<rparr>"

section \<open>tracker.py: the pinch state machine\<close>

text \<open>
  \<open>_pinch(i, which, dist, qualified, now)\<close> first binds \<open>state_arr\<close>, \<open>count_arr\<close>,
  \<open>exit_arr\<close> and \<open>time_arr\<close> to the four lists of the finger pair \<open>which\<close>; its body
  reads and writes only their entries at \<open>i\<close> (the argument \<open>dist\<close> is \<open>d\<close> here). A \<open>pinch_machine\<close> holds these four
  entries, \<open>pinch_machine_step\<close> is the body, \<open>get_machine\<close> and \<open>put_machine\<close> are the
  binding and the writes.
\<close>

record pinch_machine =
  pm_state :: pinch_state
  pm_count :: nat
  pm_exit :: nat
  pm_last :: real

definition pinch_machine_step ::
    "pinch_machine \<Rightarrow> real \<Rightarrow> bool \<Rightarrow> real \<Rightarrow> bool \<times> pinch_machine" where
  "pinch_machine_step m d qualified now =
     (case pm_state m of
        Open \<Rightarrow>
          let c = (if d < PINCH_ENTER \<and> qualified \<and> now - pm_last m > COOLDOWN
                   then pm_count m + 1 else 0)
          in
          if c \<ge> DEBOUNCE
          then (True, m\<lparr>pm_state := Pinched, pm_count := 0, pm_last := now\<rparr>)
          else (False, m\<lparr>pm_count := c\<rparr>)
      | Pinched \<Rightarrow>
          let e = (if d > PINCH_EXIT then pm_exit m + 1 else 0) in
          if e \<ge> 3
          then (False, m\<lparr>pm_state := Open, pm_exit := 0\<rparr>)
          else (False, m\<lparr>pm_exit := e\<rparr>))"

definition get_machine :: "hand_tracker \<Rightarrow> nat \<Rightarrow> string \<Rightarrow> pinch_machine" where
  "get_machine tr i which =
     (if which = ''idx''
      then \<lparr>pm_state = idx_state tr ! i, pm_count = idx_count tr ! i,
            pm_exit = idx_exit tr ! i, pm_last = last_lclick tr ! i\<rparr>
      else \<lparr>pm_state = mid_state tr ! i, pm_count = mid_count tr ! i,
            pm_exit = mid_exit tr ! i, pm_last = last_rclick tr ! i\<rparr>)"

definition put_machine :: "hand_tracker \<Rightarrow> nat \<Rightarrow> string \<Rightarrow> pinch_machine \<Rightarrow> hand_tracker" where
  "put_machine tr i which m =
     (if which = ''idx''
      then tr\<lparr>idx_state := (idx_state tr)[i := pm_state m],
              idx_count := (idx_count tr)[i := pm_count m],
              idx_exit := (idx_exit tr)[i := pm_exit m],
              last_lclick := (last_lclick tr)[i := pm_last m]\<rparr>
      else tr\<lparr>mid_state := (mid_state tr)[i := pm_state m],
              mid_count := (mid_count tr)[i := pm_count m],
              mid_exit := (mid_exit tr)[i := pm_exit m],
              last_rclick := (last_rclick tr)[i := pm_last m]\<rparr>)"

text \<open>
  \<open>_pinch\<close>, for a slot \<open>i\<close> inside the lists (\<open>_process\<close> has indexed \<open>_filt_x[i]\<close>
  before it calls \<open>_pinch\<close>).
\<close>

definition pinch ::
    "hand_tracker \<Rightarrow> nat \<Rightarrow> string \<Rightarrow> real \<Rightarrow> bool \<Rightarrow> real \<Rightarrow> bool \<times> hand_tracker" where
  "pinch tr i which d qualified now =
     (let (click, m) = pinch_machine_step (get_machine tr i which) d qualified now
      in (click, put_machine tr i which m))"

text \<open>The machine of a fresh tracker, and a machine fed a sequence of frames.\<close>

definition machine_init :: pinch_machine where
  "machine_init = \<lparr>pm_state = Open, pm_count = 0, pm_exit = 0, pm_last = 0\<rparr>"

fun run_machine :: "pinch_machine \<Rightarrow> (real \<times> bool \<times> real) list \<Rightarrow> pinch_machine" where
  "run_machine m [] = m"
| "run_machine m ((d, qualified, now) # fs) =
     run_machine (snd (pinch_machine_step m d qualified now)) fs"

fun run_clicks :: "pinch_machine \<Rightarrow> (real \<times> bool \<times> real) list \<Rightarrow> bool list" where
  "run_clicks m [] = []"
| "run_clicks m ((d, qualified, now) # fs) =
     fst (pinch_machine_step m d qualified now)
       # run_clicks (snd (pinch_machine_step m d qualified now)) fs"

text \<open>
  The calls of \<open>_pinch\<close> for slot \<open>i\<close> and pair \<open>which\<close> on consecutive frames, each on the
  tracker the call before left: the clicks returned and the tracker after the last call.
\<close>

fun run_pinch ::
    "hand_tracker \<Rightarrow> nat \<Rightarrow> string \<Rightarrow> (real \<times> bool \<times> real) list
      \<Rightarrow> bool list \<times> hand_tracker" where
  "run_pinch tr i which [] = ([], tr)"
| "run_pinch tr i which ((d, qualified, now) # fs) =
     (let (click, tr1) = pinch tr i which d qualified now;
          (clicks, tr2) = run_pinch tr1 i which fs
      in (click # clicks, tr2))"

section \<open>tracker.py: the per-frame pipeline\<close>

text \<open>\<open>math.hypot\<close> and \<open>_dist3d\<close>.\<close>

definition hypot :: "real \<Rightarrow> real \<Rightarrow> real" where
  "hypot a b = sqrt (a * a + b * b)"

definition dist3d :: "landmark \<Rightarrow> landmark \<Rightarrow> real" where
  "dist3d a b =
     (let dx = lm_x a - lm_x b;
          dy = lm_y a - lm_y b;
          dz = (lm_z a - lm_z b) * Z_WEIGHT
      in sqrt (dx * dx + dy * dy + dz * dz))"

text \<open>
  The pieces of \<open>_process\<close> on the landmarks alone: the hand scale with its guard, the
  extension test of one finger (tip \<open>t\<close>, PIP joint \<open>p\<close>), the list \<open>ext\<close> that the loop
  over \<open>zip(tips, pips)\<close> builds, and the update of the fist counter.
\<close>

definition hand_size :: "landmark list \<Rightarrow> real" where
  "hand_size lm = (let h = dist3d (lm ! 0) (lm ! 5) in if h < 0.01 then 0.1 else h)"

definition extended :: "landmark list \<Rightarrow> nat \<Rightarrow> nat \<Rightarrow> bool" where
  "extended lm t p =
     (let tip_d = hypot (lm_x (lm ! t) - lm_x (lm ! 0)) (lm_y (lm ! t) - lm_y (lm ! 0));
          pip_d = hypot (lm_x (lm ! p) - lm_x (lm ! 0)) (lm_y (lm ! p) - lm_y (lm ! 0))
      in tip_d > pip_d * 1.05)"

definition ext_flags :: "landmark list \<Rightarrow> bool list" where
  "ext_flags lm = map (\<lambda>(t, p). extended lm t p) (zip [8, 12, 16, 20] [6, 10, 14, 18])"

definition fist_update :: "nat \<Rightarrow> bool \<Rightarrow> nat" where
  "fist_update c all_curled = (if all_curled then min (c + 1) 20 else 0)"

text \<open>
  \<open>_process(landmarks, i, now)\<close>, in the order of the source and in three parts, one for
  each group of its commented blocks: the cursor (position and velocity), the two
  finger-to-thumb distances (hand scale, distances and their filters), and the gestures
  (finger extension, the two pinch machines, the sustained poses). Each part takes the
  tracker as the part before left it, and the third fills the remaining fields of the
  \<open>HandState\<close> that the first started.

  Indexing a list out of its range raises \<open>IndexError\<close>: \<open>_filt_x[i]\<close> for a slot \<open>i\<close>
  that is not 0 or 1, \<open>lm[8]\<close>, \<open>lm[12]\<close> and \<open>lm[20]\<close> for a hand with too few landmarks
  (every other index is smaller than one that was read before it). A filter that returns
  \<open>None\<close> makes \<open>min(1.0, None)\<close> and the comparisons of \<open>_pinch\<close> raise \<open>TypeError\<close>. An
  exception ends the tracking thread, so the tracker it leaves behind is not part of the
  result.
\<close>

definition process_cursor ::
    "hand_tracker \<Rightarrow> landmark list \<Rightarrow> nat \<Rightarrow> real \<Rightarrow> hand_state
      \<Rightarrow> error + (hand_state \<times> hand_tracker)" where
  "process_cursor tr lm i now hs =
     (if \<not> i < 2 \<or> \<not> 8 < length lm then Inl IndexError
      else
        case filter_call (filt_x tr ! i) (lm_x (lm ! 8)) now of
          Inl e \<Rightarrow> Inl e
        | Inr (None, fx) \<Rightarrow> Inl TypeError
        | Inr (Some vx, fx) \<Rightarrow>
            (case filter_call (filt_y tr ! i) (lm_y (lm ! 8)) now of
               Inl e \<Rightarrow> Inl e
             | Inr (None, fy) \<Rightarrow> Inl TypeError
             | Inr (Some vy, fy) \<Rightarrow>
                 let x = max 0 (min 1 vx);
                     y = max 0 (min 1 vy);
                     dt = now - prev_t tr ! i;
                     vel = (if dt > 0
                            then hypot (x - prev_x tr ! i) (y - prev_y tr ! i) / dt
                            else velocity hs)
                 in Inr (hs\<lparr>hs_x := x, hs_y := y, velocity := vel\<rparr>,
                         tr\<lparr>filt_x := (filt_x tr)[i := fx],
                            filt_y := (filt_y tr)[i := fy],
                            prev_x := (prev_x tr)[i := x],
                            prev_y := (prev_y tr)[i := y],
                            prev_t := (prev_t tr)[i := now]\<rparr>)))"

definition process_distances ::
    "hand_tracker \<Rightarrow> landmark list \<Rightarrow> nat \<Rightarrow> real
      \<Rightarrow> error + ((real option \<times> real option) \<times> hand_tracker)" where
  "process_distances tr lm i now =
     (let hsz = hand_size lm;
          thumb = lm ! 4
      in
      case filter_call (filt_d_idx tr ! i) (dist3d (lm ! 8) thumb / hsz) now of
        Inl e \<Rightarrow> Inl e
      | Inr (d_idx, fdi) \<Rightarrow>
          if \<not> 12 < length lm then Inl IndexError
          else
            (case filter_call (filt_d_mid tr ! i) (dist3d (lm ! 12) thumb / hsz) now of
               Inl e \<Rightarrow> Inl e
             | Inr (d_mid, fdm) \<Rightarrow>
                 Inr ((d_idx, d_mid),
                      tr\<lparr>filt_d_idx := (filt_d_idx tr)[i := fdi],
                         filt_d_mid := (filt_d_mid tr)[i := fdm]\<rparr>)))"

definition process_gestures ::
    "hand_tracker \<Rightarrow> landmark list \<Rightarrow> nat \<Rightarrow> real \<Rightarrow> real option \<Rightarrow> real option \<Rightarrow> hand_state
      \<Rightarrow> error + (hand_state \<times> hand_tracker)" where
  "process_gestures tr lm i now d_idx d_mid hs =
     (if \<not> 20 < length lm then Inl IndexError
      else
        let ext = ext_flags lm;
            idx_ext = ext ! 0;
            mid_ext = ext ! 1;
            ring_ext = ext ! 2;
            pinky_ext = ext ! 3;
            can_pinch = (ring_ext \<or> pinky_ext)
        in
        case d_idx of
          None \<Rightarrow> Inl TypeError
        | Some di \<Rightarrow>
            let (cl, tr1) = pinch tr i ''idx'' di can_pinch now in
            (case d_mid of
               None \<Rightarrow> Inl TypeError
             | Some dm \<Rightarrow>
                 let (cr, tr2) = pinch tr1 i ''mid'' dm can_pinch now;
                     all_curled = (\<not> list_ex (\<lambda>b. b) ext);
                     c = fist_update (fist_cnt tr2 ! i) all_curled
                 in Inr (hs\<lparr>click_left := cl, click_right := cr,
                            is_peace := (idx_ext \<and> mid_ext \<and> \<not> ring_ext \<and> \<not> pinky_ext),
                            is_open_palm := (idx_ext \<and> mid_ext \<and> ring_ext \<and> pinky_ext),
                            is_fist := (c \<ge> 8)\<rparr>,
                         tr2\<lparr>fist_cnt := (fist_cnt tr2)[i := c]\<rparr>)))"

definition process ::
    "hand_tracker \<Rightarrow> landmark list \<Rightarrow> nat \<Rightarrow> real \<Rightarrow> error + (hand_state \<times> hand_tracker)" where
  "process tr lm i now =
     (let hs0 = HandState\<lparr>detected := True\<rparr>;
          hs1 = hs0\<lparr>landmarks := map (\<lambda>l. (lm_x l, lm_y l)) lm\<rparr>
      in
      case process_cursor tr lm i now hs1 of
        Inl e \<Rightarrow> Inl e
      | Inr (hs2, tr1) \<Rightarrow>
          (case process_distances tr1 lm i now of
             Inl e \<Rightarrow> Inl e
           | Inr ((d_idx, d_mid), tr2) \<Rightarrow>
               process_gestures tr2 lm i now d_idx d_mid hs2))"

section \<open>tracker.py: one iteration of the tracking loop\<close>

text \<open>
  The loop over \<open>enumerate(results.multi_hand_landmarks)\<close> with its \<open>break\<close> at the third
  hand; an exception of \<open>_process\<close> leaves the loop.
\<close>

fun process_hands ::
    "hand_tracker \<Rightarrow> landmark list list \<Rightarrow> nat \<Rightarrow> real
      \<Rightarrow> error + (hand_state list \<times> hand_tracker)" where
  "process_hands tr [] i now = Inr ([], tr)"
| "process_hands tr (hlm # rest) i now =
     (if i \<ge> 2 then Inr ([], tr)
      else
        case process tr hlm i now of
          Inl e \<Rightarrow> Inl e
        | Inr (hs, tr') \<Rightarrow>
            (case process_hands tr' rest (i + 1) now of
               Inl e \<Rightarrow> Inl e
             | Inr (hands, tr'') \<Rightarrow> Inr (hs # hands, tr'')))"

text \<open>\<open>append\<close> on \<open>deque(maxlen=30)\<close>: the oldest entries leave at the left.\<close>

definition deque_append :: "real list \<Rightarrow> real \<Rightarrow> real list" where
  "deque_append xs v = (let ys = xs @ [v] in drop (length ys - 30) ys)"

text \<open>
  The body of the \<open>while\<close> loop of \<open>_loop\<close>. Its inputs are what the iteration reads from
  outside: the clock at its start (\<open>t0\<close>), the flag \<open>ret\<close> of the capture, the hands the
  detector reports (\<open>results.multi_hand_landmarks\<close>, empty when it is \<open>None\<close>) and the clock
  after the hands are processed (\<open>t1\<close>). The result is the tracker after the iteration,
  with the new state published.
\<close>

definition loop_iteration ::
    "hand_tracker \<Rightarrow> real \<Rightarrow> bool \<Rightarrow> landmark list list \<Rightarrow> real \<Rightarrow> error + hand_tracker" where
  "loop_iteration tr t0 ret multi_hand_landmarks t1 =
     (if \<not> ret then Inr tr
      else
        case (if multi_hand_landmarks \<noteq> []
              then process_hands tr multi_hand_landmarks 0 t0
              else Inr ([], tr)) of
          Inl e \<Rightarrow> Inl e
        | Inr (hands, tr') \<Rightarrow>
            let ns0 = TrackerState;
                ns1 = (if multi_hand_landmarks \<noteq> []
                       then
                         let a = ns0\<lparr>num_hands := length hands\<rparr>;
                             b = (if length hands \<ge> 1 then a\<lparr>primary := hands ! 0\<rparr> else a)
                         in (if length hands \<ge> 2 then b\<lparr>secondary := hands ! 1\<rparr> else b)
                       else ns0);
                dt = t1 - t0;
                ft = deque_append (ftimes tr') dt;
                avg = sum_list ft / real (length ft);
                ns2 = ns1\<lparr>fps := (if avg > 0 then 1 / avg else 0)\<rparr>
            in Inr (tr'\<lparr>ftimes := ft, state := ns2\<rparr>))"

text \<open>
  A sequence of frames in which the detector reports a hand for slot \<open>i\<close>: the hand
  results of the frames and the tracker after the last one.
\<close>

fun process_seq ::
    "hand_tracker \<Rightarrow> nat \<Rightarrow> (landmark list \<times> real) list
      \<Rightarrow> error + (hand_state list \<times> hand_tracker)" where
  "process_seq tr i [] = Inr ([], tr)"
| "process_seq tr i ((lm, now) # fs) =
     (case process tr lm i now of
        Inl e \<Rightarrow> Inl e
      | Inr (hs, tr') \<Rightarrow>
          (case process_seq tr' i fs of
             Inl e \<Rightarrow> Inl e
           | Inr (hss, tr'') \<Rightarrow> Inr (hs # hss, tr'')))"

text \<open>
  Consecutive iterations of the loop, each with a captured frame (\<open>ret\<close> true): the
  snapshots that \<open>get_state\<close> returns after each iteration, and the tracker after the
  last one.
\<close>

fun run_loop ::
    "hand_tracker \<Rightarrow> (real \<times> landmark list list \<times> real) list
      \<Rightarrow> error + (tracker_state list \<times> hand_tracker)" where
  "run_loop tr [] = Inr ([], tr)"
| "run_loop tr ((t0, hands, t1) # fs) =
     (case loop_iteration tr t0 True hands t1 of
        Inl e \<Rightarrow> Inl e
      | Inr tr' \<Rightarrow>
          (case run_loop tr' fs of
             Inl e \<Rightarrow> Inl e
           | Inr (ss, tr'') \<Rightarrow> Inr (get_state tr' # ss, tr'')))"

section \<open>Hands on which the pipeline can be followed by hand\<close>

text \<open>
  A hand of 21 landmarks on the x-axis of the image, at depth 0: the wrist and the thumb
  tip at the origin, the index MCP joint (landmark 5) and the ring fingertip (16) at
  \<open>s\<close>, the ring PIP joint (14) at \<open>s / 2\<close>, the index fingertip (8) at \<open>d\<close>, and every
  other landmark at the origin. For \<open>0.01 \<le> s\<close> its hand scale is \<open>s\<close>, its thumb-index
  distance is \<open>\<bar>d\<bar>\<close> and its ring finger is extended; \<open>axis_hand 0 0\<close> has no finger
  extended.
\<close>

definition pt :: "real \<Rightarrow> real \<Rightarrow> landmark" where
  "pt x y = \<lparr>lm_x = x, lm_y = y, lm_z = 0\<rparr>"

definition axis_hand :: "real \<Rightarrow> real \<Rightarrow> landmark list" where
  "axis_hand s d =
     (replicate 21 (pt 0 0))[5 := pt s 0, 8 := pt d 0, 14 := pt (s / 2) 0, 16 := pt s 0]"

section \<open>Notions of the specification\<close>

text \<open>
  The all-fingers-curled condition of a frame (no extension flag set), and the number of
  consecutive frames at the end of a sequence on which it holds.
\<close>

definition all_curled :: "landmark list \<Rightarrow> bool" where
  "all_curled lm \<longleftrightarrow> \<not> list_ex (\<lambda>b. b) (ext_flags lm)"

definition curled_run :: "(landmark list \<times> real) list \<Rightarrow> nat" where
  "curled_run fs = length (takeWhile (\<lambda>f. all_curled (fst f)) (rev fs))"

text \<open>
  The normalized thumb-index distance of a frame: the value that \<open>_process\<close> passes to
  the filter \<open>_filt_d_idx\<close> of the slot.
\<close>

definition idx_distance :: "landmark list \<Rightarrow> real" where
  "idx_distance lm = dist3d (lm ! 8) (lm ! 4) / hand_size lm"

text \<open>The eligibility of a frame for a pinch: \<open>ring_ext or pinky_ext\<close>.\<close>

definition can_pinch :: "landmark list \<Rightarrow> bool" where
  "can_pinch lm \<longleftrightarrow> ext_flags lm ! 2 \<or> ext_flags lm ! 3"

text \<open>
  Five consecutive frames at 30 frames per second, each with two hands: the first hand
  has hand scale 1, its ring finger extended and the thumb-index distances 0.5, 0.4, 0.2,
  0.15 and 0.1; the second hand does not move. The first frame is read at clock value 1,
  and each frame takes 0.01 seconds to process.
\<close>

definition scenario_frames :: "(real \<times> landmark list list \<times> real) list" where
  "scenario_frames =
     [(1, [axis_hand 1 0.5, axis_hand 1 0.5], 1 + 0.01),
      (1 + 1 / 30, [axis_hand 1 0.4, axis_hand 1 0.5], 1 + 1 / 30 + 0.01),
      (1 + 2 / 30, [axis_hand 1 0.2, axis_hand 1 0.5], 1 + 2 / 30 + 0.01),
      (1 + 3 / 30, [axis_hand 1 0.15, axis_hand 1 0.5], 1 + 3 / 30 + 0.01),
      (1 + 4 / 30, [axis_hand 1 0.1, axis_hand 1 0.5], 1 + 4 / 30 + 0.01)]"

text \<open>
  A slot that no frame has been processed in: its cursor filters have received no sample,
  and its previous position and time are the ones the constructor stored.
\<close>

definition slot_unused :: "hand_tracker \<Rightarrow> nat \<Rightarrow> real \<Rightarrow> bool" where
  "slot_unused tr i t_c \<longleftrightarrow>
     t_prev (filt_x tr ! i) = None \<and> t_prev (filt_y tr ! i) = None \<and>
     prev_x tr ! i = 0.5 \<and> prev_y tr ! i = 0.5 \<and> prev_t tr ! i = t_c"

section \<open>Well-formed filters and trackers\<close>

text \<open>
  What the constructors establish and every call keeps: a filter has positive cutoffs, a
  speed coefficient that is not negative, and \<open>_x_prev\<close> set exactly when \<open>_t_prev\<close> is; a
  tracker has lists of length 2 and well-formed filters. These predicates are used in the
  proofs only; they are not part of the program.
\<close>

definition filter_ok :: "one_euro_filter \<Rightarrow> bool" where
  "filter_ok f \<longleftrightarrow>
     0 < min_cutoff f \<and> 0 \<le> beta f \<and> 0 < d_cutoff f \<and> (t_prev f = None) = (x_prev f = None)"

definition slots_ok :: "hand_tracker \<Rightarrow> bool" where
  "slots_ok tr \<longleftrightarrow>
     length (filt_x tr) = 2 \<and> length (filt_y tr) = 2 \<and>
     length (filt_d_idx tr) = 2 \<and> length (filt_d_mid tr) = 2 \<and>
     length (prev_x tr) = 2 \<and> length (prev_y tr) = 2 \<and> length (prev_t tr) = 2 \<and>
     length (idx_state tr) = 2 \<and> length (mid_state tr) = 2 \<and>
     length (idx_count tr) = 2 \<and> length (mid_count tr) = 2 \<and>
     length (idx_exit tr) = 2 \<and> length (mid_exit tr) = 2 \<and>
     length (last_lclick tr) = 2 \<and> length (last_rclick tr) = 2 \<and>
     length (fist_cnt tr) = 2"

definition tracker_ok :: "hand_tracker \<Rightarrow> bool" where
  "tracker_ok tr \<longleftrightarrow>
     slots_ok tr \<and>
     list_all filter_ok (filt_x tr) \<and> list_all filter_ok (filt_y tr) \<and>
     list_all filter_ok (filt_d_idx tr) \<and> list_all filter_ok (filt_d_mid tr)"

section \<open>Properties of the filter\<close>

lemma filter_call_guard:
  assumes "t_prev f = Some tp" and "t \<le> tp"
  shows "filter_call f x t = Inr (x_prev f, f)"
  using assms by (simp add: filter_call_def)

lemma filter_call_stamp:
  assumes "filter_call f0 x1 t1 = Inr (r1, f1)"
  shows "\<exists>tp. t_prev f1 = Some tp \<and> t1 \<le> tp \<and> x_prev f1 = r1"
proof (cases "t_prev f0")
  case None
  with assms show ?thesis by (auto simp: filter_call_def)
next
  case (Some tp0)
  show ?thesis
  proof (cases "t1 \<le> tp0")
    case True
    with Some assms show ?thesis by (auto simp: filter_call_def)
  next
    case False
    with Some assms show ?thesis
      by (auto simp: filter_call_def Let_def split: option.splits sum.splits)
  qed
qed

text \<open>
  Claim C6. Once a filter holds a timestamp (it has received a sample and was not reset),
  a call whose timestamp is not later than the stored one returns the stored value
  \<open>_x_prev\<close> and leaves every field of the filter as it was. In particular, a call that
  directly follows a call that returned \<open>r1\<close>, with a timestamp equal to or earlier than
  that call's, returns \<open>r1\<close> again and does not change the filter.
\<close>

theorem filter_monotonic_time_guard:
  "(t_prev f = Some tp \<and> t \<le> tp \<longrightarrow> filter_call f x t = Inr (x_prev f, f)) \<and>
   (filter_call f0 x1 t1 = Inr (r1, f1) \<and> t2 \<le> t1 \<longrightarrow>
      filter_call f1 x2 t2 = Inr (r1, f1))"
proof (intro conjI impI)
  assume "t_prev f = Some tp \<and> t \<le> tp"
  then show "filter_call f x t = Inr (x_prev f, f)"
    by (simp add: filter_call_guard)
next
  assume a: "filter_call f0 x1 t1 = Inr (r1, f1) \<and> t2 \<le> t1"
  then obtain tp where tp: "t_prev f1 = Some tp" "t1 \<le> tp" "x_prev f1 = r1"
    using filter_call_stamp by blast
  from a tp have "t2 \<le> tp" by simp
  with tp show "filter_call f1 x2 t2 = Inr (r1, f1)"
    using filter_call_guard [of f1 tp t2 x2] by simp
qed

theorem filter_monotonic_time_guard_witness:
  "filter_call (OneEuroFilter_init 1 0.007 1) 3 10
     = Inr (Some 3, (OneEuroFilter_init 1 0.007 1)\<lparr>x_prev := Some 3, t_prev := Some 10\<rparr>) \<and>
   filter_call ((OneEuroFilter_init 1 0.007 1)\<lparr>x_prev := Some 3, t_prev := Some 10\<rparr>) 5 10
     = Inr (Some 3, (OneEuroFilter_init 1 0.007 1)\<lparr>x_prev := Some 3, t_prev := Some 10\<rparr>) \<and>
   filter_call ((OneEuroFilter_init 1 0.007 1)\<lparr>x_prev := Some 3, t_prev := Some 10\<rparr>) 5 9
     = Inr (Some 3, (OneEuroFilter_init 1 0.007 1)\<lparr>x_prev := Some 3, t_prev := Some 10\<rparr>)"
proof -
  let ?f0 = "OneEuroFilter_init 1 0.007 1"
  let ?f1 = "?f0\<lparr>x_prev := Some 3, t_prev := Some 10\<rparr>"
  have first: "filter_call ?f0 3 10 = Inr (Some 3, ?f1)"
    by (simp add: filter_call_def OneEuroFilter_init_def)
  have same: "filter_call ?f1 5 10 = Inr (Some 3, ?f1)"
    using filter_monotonic_time_guard [of ?f1 10 10 5 ?f0 3 10 "Some 3" ?f1 10 5] first
    by simp
  have earlier: "filter_call ?f1 5 9 = Inr (Some 3, ?f1)"
    using filter_monotonic_time_guard [of ?f1 10 9 5 ?f0 3 10 "Some 3" ?f1 9 5] first
    by simp
  from first same earlier show ?thesis by simp
qed

section \<open>Properties of the pinch state machine\<close>

lemmas tracker_consts = PINCH_ENTER_def PINCH_EXIT_def DEBOUNCE_def COOLDOWN_def

text \<open>
  In every machine that a sequence of frames produces from the initial one, the qualifying
  counter of an open machine is below the debounce count and its exit counter is 0; the
  qualifying counter of a pinched machine is 0 and its exit counter is below 3.
\<close>

lemma machine_step_inv:
  assumes "(pm_state m = Open \<longrightarrow> pm_count m < 4 \<and> pm_exit m = 0) \<and>
           (pm_state m = Pinched \<longrightarrow> pm_count m = 0 \<and> pm_exit m < 3)"
  shows "(pm_state (snd (pinch_machine_step m d q now)) = Open \<longrightarrow>
            pm_count (snd (pinch_machine_step m d q now)) < 4 \<and>
            pm_exit (snd (pinch_machine_step m d q now)) = 0) \<and>
         (pm_state (snd (pinch_machine_step m d q now)) = Pinched \<longrightarrow>
            pm_count (snd (pinch_machine_step m d q now)) = 0 \<and>
            pm_exit (snd (pinch_machine_step m d q now)) < 3)"
  using assms
  by (cases "pm_state m") (auto simp: pinch_machine_step_def tracker_consts Let_def)

lemma run_machine_inv:
  assumes "(pm_state m = Open \<longrightarrow> pm_count m < 4 \<and> pm_exit m = 0) \<and>
           (pm_state m = Pinched \<longrightarrow> pm_count m = 0 \<and> pm_exit m < 3)"
  shows "(pm_state (run_machine m fs) = Open \<longrightarrow>
            pm_count (run_machine m fs) < 4 \<and> pm_exit (run_machine m fs) = 0) \<and>
         (pm_state (run_machine m fs) = Pinched \<longrightarrow>
            pm_count (run_machine m fs) = 0 \<and> pm_exit (run_machine m fs) < 3)"
  using assms
proof (induction fs arbitrary: m)
  case Nil
  then show ?case by simp
next
  case (Cons f fs)
  obtain d q now where f: "f = (d, q, now)" by (cases f) auto
  show ?case
    unfolding f run_machine.simps
    by (rule Cons.IH, rule machine_step_inv, rule Cons.prems)
qed

lemma reachable_machine_inv:
  "(pm_state (run_machine machine_init fs) = Open \<longrightarrow>
      pm_count (run_machine machine_init fs) < 4 \<and>
      pm_exit (run_machine machine_init fs) = 0) \<and>
   (pm_state (run_machine machine_init fs) = Pinched \<longrightarrow>
      pm_count (run_machine machine_init fs) = 0 \<and>
      pm_exit (run_machine machine_init fs) < 3)"
  by (rule run_machine_inv) (simp add: machine_init_def)

lemma open_step:
  assumes "pm_state m = Open" and "pm_count m < 4"
  shows "pinch_machine_step m d q now =
       (if d < 0.28 \<and> q \<and> now - pm_last m > 0.45
        then (if pm_count m + 1 = 4
              then (True, m\<lparr>pm_state := Pinched, pm_count := 0, pm_last := now\<rparr>)
              else (False, m\<lparr>pm_count := pm_count m + 1\<rparr>))
        else (False, m\<lparr>pm_count := 0\<rparr>))"
  using assms by (auto simp: pinch_machine_step_def tracker_consts Let_def)

lemma pinched_step:
  assumes "pm_state m = Pinched" and "pm_exit m < 3"
  shows "pinch_machine_step m d q now =
       (if d > 0.5
        then (if pm_exit m + 1 = 3
              then (False, m\<lparr>pm_state := Open, pm_exit := 0\<rparr>)
              else (False, m\<lparr>pm_exit := pm_exit m + 1\<rparr>))
        else (False, m\<lparr>pm_exit := 0\<rparr>))"
  using assms by (auto simp: pinch_machine_step_def tracker_consts Let_def)

lemma pinched_no_click: "pm_state m = Pinched \<Longrightarrow> \<not> fst (pinch_machine_step m d q now)"
  by (simp add: pinch_machine_step_def Let_def)

lemma open_four_frames:
  assumes "pm_state m = Open" and "pm_count m = 0"
    and "d1 < 0.28 \<and> q1 \<and> n1 - pm_last m > 0.45"
    and "d2 < 0.28 \<and> q2 \<and> n2 - pm_last m > 0.45"
    and "d3 < 0.28 \<and> q3 \<and> n3 - pm_last m > 0.45"
  shows "run_clicks m [(d1, q1, n1), (d2, q2, n2), (d3, q3, n3), (d4, q4, n4)] =
           [False, False, False, d4 < 0.28 \<and> q4 \<and> n4 - pm_last m > 0.45]"
  using assms by (auto simp: pinch_machine_step_def tracker_consts Let_def)

lemma pinched_three_frames:
  assumes "pm_state m = Pinched" and "pm_exit m = 0"
  shows "pm_state (run_machine m [(d1, q1, n1)]) = Pinched \<and>
         pm_state (run_machine m [(d1, q1, n1), (d2, q2, n2)]) = Pinched \<and>
         (pm_state (run_machine m [(d1, q1, n1), (d2, q2, n2), (d3, q3, n3)]) = Open
            \<longleftrightarrow> d1 > 0.5 \<and> d2 > 0.5 \<and> d3 > 0.5) \<and>
         run_clicks m [(d1, q1, n1), (d2, q2, n2), (d3, q3, n3)] = [False, False, False]"
  using assms by (auto simp: pinch_machine_step_def tracker_consts Let_def)

section \<open>The filter on well-formed filters\<close>

text \<open>
  On a well-formed filter a call raises nothing and returns a number: the input itself on
  the first call, and otherwise a value between the input and the stored value, since the
  smoothing coefficient lies strictly between 0 and 1.
\<close>

lemma alpha_unit:
  assumes "0 < c" and "0 < dt"
  obtains a where "alpha c dt = Inr a" "0 < a" "a < 1"
proof -
  define D where "D = 1 + (1 / (2 * pi * c)) / dt"
  have p: "0 < 2 * pi * c" using assms by simp
  then have t: "0 < 1 / (2 * pi * c)" by simp
  have "0 < (1 / (2 * pi * c)) / dt" by (rule divide_pos_pos [OF t assms(2)])
  then have d: "1 < D" by (simp add: D_def)
  then have a1: "1 / D < 1" by simp
  have a0: "0 < 1 / D" using d by simp
  have "2 * pi * c \<noteq> 0" "dt \<noteq> 0" "D \<noteq> 0" using p assms d by simp_all
  then have "alpha c dt = Inr (1 / D)"
    unfolding alpha_def Let_def D_def by simp
  with a0 a1 show ?thesis using that by blast
qed

lemma convex_between:
  fixes a x y :: real
  assumes "0 < a" and "a < 1"
  shows "min x y \<le> a * x + (1 - a) * y" and "a * x + (1 - a) * y \<le> max x y"
proof -
  have "a * min x y \<le> a * x" "(1 - a) * min x y \<le> (1 - a) * y"
    using assms by (simp_all add: mult_left_mono)
  then have "a * min x y + (1 - a) * min x y \<le> a * x + (1 - a) * y" by linarith
  then show "min x y \<le> a * x + (1 - a) * y" by (simp add: algebra_simps)
  have "a * x \<le> a * max x y" "(1 - a) * y \<le> (1 - a) * max x y"
    using assms by (simp_all add: mult_left_mono)
  then have "a * x + (1 - a) * y \<le> a * max x y + (1 - a) * max x y" by linarith
  then show "a * x + (1 - a) * y \<le> max x y" by (simp add: algebra_simps)
qed

lemma filter_call_fresh:
  assumes "t_prev f = None"
  shows "filter_call f x t = Inr (Some x, f\<lparr>x_prev := Some x, t_prev := Some t\<rparr>)"
  using assms by (simp add: filter_call_def)

lemma filter_call_ok:
  assumes "filter_ok f"
  obtains v f' where
    "filter_call f x t = Inr (Some v, f')" "filter_ok f'"
    "x_prev f' = Some v"
    "\<exists>tp. t_prev f' = Some tp \<and> t \<le> tp"
    "min_cutoff f' = min_cutoff f" "beta f' = beta f" "d_cutoff f' = d_cutoff f"
    "case x_prev f of None \<Rightarrow> v = x | Some xp \<Rightarrow> min x xp \<le> v \<and> v \<le> max x xp"
proof (cases "t_prev f")
  case None
  with assms have xn: "x_prev f = None" by (simp add: filter_ok_def)
  show ?thesis
    using assms None xn
    by (intro that [of x "f\<lparr>x_prev := Some x, t_prev := Some t\<rparr>"])
       (simp_all add: filter_call_def filter_ok_def)
next
  case (Some tp)
  with assms obtain xp where xp: "x_prev f = Some xp" by (auto simp: filter_ok_def)
  show ?thesis
  proof (cases "t - tp \<le> 0")
    case True
    show ?thesis
      using assms Some xp True
      by (intro that [of xp f]) (simp_all add: filter_call_def)
  next
    case False
    then have dt: "0 < t - tp" by simp
    from assms have c: "0 < d_cutoff f" "0 < min_cutoff f" "0 \<le> beta f"
      by (simp_all add: filter_ok_def)
    obtain a_d where ad: "alpha (d_cutoff f) (t - tp) = Inr a_d"
      using alpha_unit [OF c(1) dt] by blast
    define dx_hat where "dx_hat = a_d * ((x - xp) / (t - tp)) + (1 - a_d) * dx_prev f"
    have "0 \<le> beta f * \<bar>dx_hat\<bar>" using c by simp
    then have cut: "0 < min_cutoff f + beta f * \<bar>dx_hat\<bar>" using c by linarith
    obtain a where a: "alpha (min_cutoff f + beta f * \<bar>dx_hat\<bar>) (t - tp) = Inr a"
      "0 < a" "a < 1"
      using alpha_unit [OF cut dt] by blast
    have call: "filter_call f x t =
        Inr (Some (a * x + (1 - a) * xp),
             f\<lparr>x_prev := Some (a * x + (1 - a) * xp), dx_prev := dx_hat, t_prev := Some t\<rparr>)"
      using Some xp False ad a(1) unfolding filter_call_def Let_def dx_hat_def by simp
    show ?thesis
      using call assms xp convex_between [OF a(2) a(3), of x xp]
      by (intro that [of "a * x + (1 - a) * xp"
            "f\<lparr>x_prev := Some (a * x + (1 - a) * xp), dx_prev := dx_hat, t_prev := Some t\<rparr>"])
         (simp_all add: filter_ok_def)
  qed
qed

section \<open>The parts of the per-frame pipeline\<close>

text \<open>What a part that raised nothing has done.\<close>

lemma process_cursor_InrE:
  assumes "process_cursor tr lm i now hs = Inr (hs', tr')"
  obtains vx fx vy fy where
    "i < 2" "8 < length lm"
    "filter_call (filt_x tr ! i) (lm_x (lm ! 8)) now = Inr (Some vx, fx)"
    "filter_call (filt_y tr ! i) (lm_y (lm ! 8)) now = Inr (Some vy, fy)"
    "hs' = hs\<lparr>hs_x := max 0 (min 1 vx), hs_y := max 0 (min 1 vy),
              velocity := (if now - prev_t tr ! i > 0
                           then hypot (max 0 (min 1 vx) - prev_x tr ! i)
                                      (max 0 (min 1 vy) - prev_y tr ! i) / (now - prev_t tr ! i)
                           else velocity hs)\<rparr>"
    "tr' = tr\<lparr>filt_x := (filt_x tr)[i := fx],
              filt_y := (filt_y tr)[i := fy],
              prev_x := (prev_x tr)[i := max 0 (min 1 vx)],
              prev_y := (prev_y tr)[i := max 0 (min 1 vy)],
              prev_t := (prev_t tr)[i := now]\<rparr>"
  using assms
  by (auto simp: process_cursor_def Let_def
      split: if_splits sum.splits option.splits prod.splits)

lemma process_distances_InrE:
  assumes "process_distances tr lm i now = Inr ((d_idx, d_mid), tr')"
  obtains fdi fdm where
    "12 < length lm"
    "filter_call (filt_d_idx tr ! i) (dist3d (lm ! 8) (lm ! 4) / hand_size lm) now
       = Inr (d_idx, fdi)"
    "filter_call (filt_d_mid tr ! i) (dist3d (lm ! 12) (lm ! 4) / hand_size lm) now
       = Inr (d_mid, fdm)"
    "tr' = tr\<lparr>filt_d_idx := (filt_d_idx tr)[i := fdi],
              filt_d_mid := (filt_d_mid tr)[i := fdm]\<rparr>"
  using assms
  by (auto simp: process_distances_def Let_def
      split: if_splits sum.splits option.splits prod.splits)

lemma process_gestures_InrE:
  assumes "process_gestures tr lm i now d_idx d_mid hs = Inr (hs', tr')"
  obtains di dm tr1 tr2 where
    "20 < length lm" "d_idx = Some di" "d_mid = Some dm"
    "tr1 = snd (pinch tr i ''idx'' di (ext_flags lm ! 2 \<or> ext_flags lm ! 3) now)"
    "tr2 = snd (pinch tr1 i ''mid'' dm (ext_flags lm ! 2 \<or> ext_flags lm ! 3) now)"
    "hs' = hs\<lparr>click_left := fst (pinch tr i ''idx'' di (ext_flags lm ! 2 \<or> ext_flags lm ! 3) now),
              click_right := fst (pinch tr1 i ''mid'' dm (ext_flags lm ! 2 \<or> ext_flags lm ! 3) now),
              is_peace := (ext_flags lm ! 0 \<and> ext_flags lm ! 1 \<and> \<not> ext_flags lm ! 2
                            \<and> \<not> ext_flags lm ! 3),
              is_open_palm := (ext_flags lm ! 0 \<and> ext_flags lm ! 1 \<and> ext_flags lm ! 2
                            \<and> ext_flags lm ! 3),
              is_fist := (8 \<le> fist_update (fist_cnt tr2 ! i)
                                  (\<not> list_ex (\<lambda>b. b) (ext_flags lm)))\<rparr>"
    "tr' = tr2\<lparr>fist_cnt := (fist_cnt tr2)
              [i := fist_update (fist_cnt tr2 ! i) (\<not> list_ex (\<lambda>b. b) (ext_flags lm))]\<rparr>"
  using assms
  by (auto simp: process_gestures_def Let_def case_prod_beta
      split: if_splits option.splits)

lemma process_InrE:
  assumes "process tr lm i now = Inr (hs, tr')"
  obtains hs2 tr1 d_idx d_mid tr2 where
    "process_cursor tr lm i now
       (HandState\<lparr>detected := True, landmarks := map (\<lambda>l. (lm_x l, lm_y l)) lm\<rparr>)
       = Inr (hs2, tr1)"
    "process_distances tr1 lm i now = Inr ((d_idx, d_mid), tr2)"
    "process_gestures tr2 lm i now d_idx d_mid hs2 = Inr (hs, tr')"
  using assms
  by (auto simp: process_def Let_def split: sum.splits prod.splits)

text \<open>What \<open>_pinch\<close> touches.\<close>

lemma pinch_fst:
  "fst (pinch tr i w d q now) = fst (pinch_machine_step (get_machine tr i w) d q now)"
  by (simp add: pinch_def case_prod_beta)

lemma pinch_frame:
  "fist_cnt (snd (pinch tr i w d q now)) = fist_cnt tr"
  "filt_x (snd (pinch tr i w d q now)) = filt_x tr"
  "filt_y (snd (pinch tr i w d q now)) = filt_y tr"
  "filt_d_idx (snd (pinch tr i w d q now)) = filt_d_idx tr"
  "filt_d_mid (snd (pinch tr i w d q now)) = filt_d_mid tr"
  "prev_x (snd (pinch tr i w d q now)) = prev_x tr"
  "prev_y (snd (pinch tr i w d q now)) = prev_y tr"
  "prev_t (snd (pinch tr i w d q now)) = prev_t tr"
  "state (snd (pinch tr i w d q now)) = state tr"
  "ftimes (snd (pinch tr i w d q now)) = ftimes tr"
  by (simp_all add: pinch_def put_machine_def case_prod_beta)

lemma pinch_lengths:
  "length (idx_state (snd (pinch tr i w d q now))) = length (idx_state tr)"
  "length (mid_state (snd (pinch tr i w d q now))) = length (mid_state tr)"
  "length (idx_count (snd (pinch tr i w d q now))) = length (idx_count tr)"
  "length (mid_count (snd (pinch tr i w d q now))) = length (mid_count tr)"
  "length (idx_exit (snd (pinch tr i w d q now))) = length (idx_exit tr)"
  "length (mid_exit (snd (pinch tr i w d q now))) = length (mid_exit tr)"
  "length (last_lclick (snd (pinch tr i w d q now))) = length (last_lclick tr)"
  "length (last_rclick (snd (pinch tr i w d q now))) = length (last_rclick tr)"
  by (simp_all add: pinch_def put_machine_def case_prod_beta)

lemma pinch_slots_ok: "slots_ok tr \<Longrightarrow> slots_ok (snd (pinch tr i w d q now))"
  by (simp add: slots_ok_def pinch_frame pinch_lengths)

lemma pinch_tracker_ok: "tracker_ok tr \<Longrightarrow> tracker_ok (snd (pinch tr i w d q now))"
  by (simp add: tracker_ok_def pinch_slots_ok pinch_frame)

lemma pinch_get_same:
  assumes "slots_ok tr" and "i < 2"
  shows "get_machine (snd (pinch tr i w d q now)) i w
           = snd (pinch_machine_step (get_machine tr i w) d q now)"
  using assms
  by (simp add: pinch_def put_machine_def get_machine_def case_prod_beta slots_ok_def)

lemma pinch_get_other_pair:
  assumes "(w = ''idx'') \<noteq> (w' = ''idx'')"
  shows "get_machine (snd (pinch tr i w d q now)) j w' = get_machine tr j w'"
  using assms
  by (auto simp: pinch_def put_machine_def get_machine_def case_prod_beta)

lemma pinch_get_other_slot:
  assumes "j \<noteq> i"
  shows "get_machine (snd (pinch tr i w d q now)) j w' = get_machine tr j w'"
  using assms
  by (auto simp: pinch_def put_machine_def get_machine_def case_prod_beta)

text \<open>What a call of \<open>_process\<close> that raised nothing has returned and stored.\<close>

lemma process_poses:
  assumes "process tr lm i now = Inr (hs, tr')"
  shows "i < 2" and "20 < length lm"
    and "is_peace hs = (ext_flags lm ! 0 \<and> ext_flags lm ! 1 \<and> \<not> ext_flags lm ! 2
                          \<and> \<not> ext_flags lm ! 3)"
    and "is_open_palm hs = (ext_flags lm ! 0 \<and> ext_flags lm ! 1 \<and> ext_flags lm ! 2
                          \<and> ext_flags lm ! 3)"
    and "is_fist hs = (8 \<le> fist_update (fist_cnt tr ! i) (\<not> list_ex (\<lambda>b. b) (ext_flags lm)))"
    and "fist_cnt tr' = (fist_cnt tr)
           [i := fist_update (fist_cnt tr ! i) (\<not> list_ex (\<lambda>b. b) (ext_flags lm))]"
    and "detected hs"
    and "landmarks hs = map (\<lambda>l. (lm_x l, lm_y l)) lm"
    and "state tr' = state tr" and "ftimes tr' = ftimes tr"
proof -
  let ?q = "ext_flags lm ! 2 \<or> ext_flags lm ! 3"
  let ?c = "\<not> list_ex (\<lambda>b. b) (ext_flags lm)"
  obtain hs2 tr1 d_idx d_mid tr2 where
    c: "process_cursor tr lm i now
          (HandState\<lparr>detected := True, landmarks := map (\<lambda>l. (lm_x l, lm_y l)) lm\<rparr>)
          = Inr (hs2, tr1)"
    and d: "process_distances tr1 lm i now = Inr ((d_idx, d_mid), tr2)"
    and g: "process_gestures tr2 lm i now d_idx d_mid hs2 = Inr (hs, tr')"
    using assms by (rule process_InrE)
  from c obtain vx fx vy fy where
    i: "i < 2"
    and hs2: "hs2 = (HandState\<lparr>detected := True, landmarks := map (\<lambda>l. (lm_x l, lm_y l)) lm\<rparr>)
              \<lparr>hs_x := max 0 (min 1 vx), hs_y := max 0 (min 1 vy),
              velocity := (if now - prev_t tr ! i > 0
                           then hypot (max 0 (min 1 vx) - prev_x tr ! i)
                                      (max 0 (min 1 vy) - prev_y tr ! i) / (now - prev_t tr ! i)
                           else velocity (HandState\<lparr>detected := True,
                                  landmarks := map (\<lambda>l. (lm_x l, lm_y l)) lm\<rparr>))\<rparr>"
    and tr1: "tr1 = tr\<lparr>filt_x := (filt_x tr)[i := fx],
              filt_y := (filt_y tr)[i := fy],
              prev_x := (prev_x tr)[i := max 0 (min 1 vx)],
              prev_y := (prev_y tr)[i := max 0 (min 1 vy)],
              prev_t := (prev_t tr)[i := now]\<rparr>"
    by (rule process_cursor_InrE)
  from d obtain fdi fdm where
    tr2: "tr2 = tr1\<lparr>filt_d_idx := (filt_d_idx tr1)[i := fdi],
              filt_d_mid := (filt_d_mid tr1)[i := fdm]\<rparr>"
    by (rule process_distances_InrE)
  from g obtain di dm t1 t2 where
    l: "20 < length lm"
    and t1: "t1 = snd (pinch tr2 i ''idx'' di ?q now)"
    and t2: "t2 = snd (pinch t1 i ''mid'' dm ?q now)"
    and hs: "hs = hs2\<lparr>click_left := fst (pinch tr2 i ''idx'' di ?q now),
              click_right := fst (pinch t1 i ''mid'' dm ?q now),
              is_peace := (ext_flags lm ! 0 \<and> ext_flags lm ! 1 \<and> \<not> ext_flags lm ! 2
                            \<and> \<not> ext_flags lm ! 3),
              is_open_palm := (ext_flags lm ! 0 \<and> ext_flags lm ! 1 \<and> ext_flags lm ! 2
                            \<and> ext_flags lm ! 3),
              is_fist := (8 \<le> fist_update (fist_cnt t2 ! i) ?c)\<rparr>"
    and tr': "tr' = t2\<lparr>fist_cnt := (fist_cnt t2)[i := fist_update (fist_cnt t2 ! i) ?c]\<rparr>"
    by (rule process_gestures_InrE)
  have fc: "fist_cnt t2 = fist_cnt tr" by (simp add: t2 t1 pinch_frame tr2 tr1)
  have st: "state t2 = state tr" by (simp add: t2 t1 pinch_frame tr2 tr1)
  have ft: "ftimes t2 = ftimes tr" by (simp add: t2 t1 pinch_frame tr2 tr1)
  show "i < 2" by (rule i)
  show "20 < length lm" by (rule l)
  show "is_peace hs = (ext_flags lm ! 0 \<and> ext_flags lm ! 1 \<and> \<not> ext_flags lm ! 2
                          \<and> \<not> ext_flags lm ! 3)"
    by (simp add: hs)
  show "is_open_palm hs = (ext_flags lm ! 0 \<and> ext_flags lm ! 1 \<and> ext_flags lm ! 2
                          \<and> ext_flags lm ! 3)"
    by (simp add: hs)
  show "is_fist hs = (8 \<le> fist_update (fist_cnt tr ! i) ?c)"
    by (simp add: hs fc)
  show "fist_cnt tr' = (fist_cnt tr)[i := fist_update (fist_cnt tr ! i) ?c]"
    by (simp add: tr' fc)
  show "detected hs" by (simp add: hs hs2)
  show "landmarks hs = map (\<lambda>l. (lm_x l, lm_y l)) lm" by (simp add: hs hs2)
  show "state tr' = state tr" by (simp add: tr' st)
  show "ftimes tr' = ftimes tr" by (simp add: tr' ft)
qed

lemma process_cursor_fields:
  assumes "process tr lm i now = Inr (hs, tr')"
  obtains vx fx vy fy where
    "filter_call (filt_x tr ! i) (lm_x (lm ! 8)) now = Inr (Some vx, fx)"
    "filter_call (filt_y tr ! i) (lm_y (lm ! 8)) now = Inr (Some vy, fy)"
    "hs_x hs = max 0 (min 1 vx)" "hs_y hs = max 0 (min 1 vy)"
    "velocity hs = (if now - prev_t tr ! i > 0
                    then hypot (hs_x hs - prev_x tr ! i) (hs_y hs - prev_y tr ! i)
                           / (now - prev_t tr ! i)
                    else 0)"
    "filt_x tr' = (filt_x tr)[i := fx]" "filt_y tr' = (filt_y tr)[i := fy]"
    "prev_x tr' = (prev_x tr)[i := hs_x hs]" "prev_y tr' = (prev_y tr)[i := hs_y hs]"
    "prev_t tr' = (prev_t tr)[i := now]"
proof -
  let ?q = "ext_flags lm ! 2 \<or> ext_flags lm ! 3"
  let ?c = "\<not> list_ex (\<lambda>b. b) (ext_flags lm)"
  obtain hs2 tr1 d_idx d_mid tr2 where
    c: "process_cursor tr lm i now
          (HandState\<lparr>detected := True, landmarks := map (\<lambda>l. (lm_x l, lm_y l)) lm\<rparr>)
          = Inr (hs2, tr1)"
    and d: "process_distances tr1 lm i now = Inr ((d_idx, d_mid), tr2)"
    and g: "process_gestures tr2 lm i now d_idx d_mid hs2 = Inr (hs, tr')"
    using assms by (rule process_InrE)
  from c obtain vx fx vy fy where
    1: "filter_call (filt_x tr ! i) (lm_x (lm ! 8)) now = Inr (Some vx, fx)"
       "filter_call (filt_y tr ! i) (lm_y (lm ! 8)) now = Inr (Some vy, fy)"
    and hs2: "hs2 = (HandState\<lparr>detected := True, landmarks := map (\<lambda>l. (lm_x l, lm_y l)) lm\<rparr>)
              \<lparr>hs_x := max 0 (min 1 vx), hs_y := max 0 (min 1 vy),
              velocity := (if now - prev_t tr ! i > 0
                           then hypot (max 0 (min 1 vx) - prev_x tr ! i)
                                      (max 0 (min 1 vy) - prev_y tr ! i) / (now - prev_t tr ! i)
                           else velocity (HandState\<lparr>detected := True,
                                  landmarks := map (\<lambda>l. (lm_x l, lm_y l)) lm\<rparr>))\<rparr>"
    and tr1: "tr1 = tr\<lparr>filt_x := (filt_x tr)[i := fx],
              filt_y := (filt_y tr)[i := fy],
              prev_x := (prev_x tr)[i := max 0 (min 1 vx)],
              prev_y := (prev_y tr)[i := max 0 (min 1 vy)],
              prev_t := (prev_t tr)[i := now]\<rparr>"
    by (rule process_cursor_InrE)
  from d obtain fdi fdm where
    tr2: "tr2 = tr1\<lparr>filt_d_idx := (filt_d_idx tr1)[i := fdi],
              filt_d_mid := (filt_d_mid tr1)[i := fdm]\<rparr>"
    by (rule process_distances_InrE)
  from g obtain di dm t1 t2 where
    t1: "t1 = snd (pinch tr2 i ''idx'' di ?q now)"
    and t2: "t2 = snd (pinch t1 i ''mid'' dm ?q now)"
    and hs: "hs = hs2\<lparr>click_left := fst (pinch tr2 i ''idx'' di ?q now),
              click_right := fst (pinch t1 i ''mid'' dm ?q now),
              is_peace := (ext_flags lm ! 0 \<and> ext_flags lm ! 1 \<and> \<not> ext_flags lm ! 2
                            \<and> \<not> ext_flags lm ! 3),
              is_open_palm := (ext_flags lm ! 0 \<and> ext_flags lm ! 1 \<and> ext_flags lm ! 2
                            \<and> ext_flags lm ! 3),
              is_fist := (8 \<le> fist_update (fist_cnt t2 ! i) ?c)\<rparr>"
    and tr': "tr' = t2\<lparr>fist_cnt := (fist_cnt t2)[i := fist_update (fist_cnt t2 ! i) ?c]\<rparr>"
    by (rule process_gestures_InrE)
  have hx: "hs_x hs = max 0 (min 1 vx)" "hs_y hs = max 0 (min 1 vy)"
    by (simp_all add: hs hs2)
  have v: "velocity hs = (if now - prev_t tr ! i > 0
                    then hypot (hs_x hs - prev_x tr ! i) (hs_y hs - prev_y tr ! i)
                           / (now - prev_t tr ! i)
                    else 0)"
    unfolding hx by (simp add: hs hs2 HandState_def)
  have t: "filt_x tr' = (filt_x tr)[i := fx]" "filt_y tr' = (filt_y tr)[i := fy]"
    "prev_x tr' = (prev_x tr)[i := hs_x hs]" "prev_y tr' = (prev_y tr)[i := hs_y hs]"
    "prev_t tr' = (prev_t tr)[i := now]"
    unfolding hx by (simp_all add: tr' t2 t1 pinch_frame tr2 tr1)
  show ?thesis
    using 1 hx v t by (rule that)
qed

lemma process_pinch_fields:
  assumes "process tr lm i now = Inr (hs, tr')"
  obtains di fdi dm fdm where
    "filter_call (filt_d_idx tr ! i) (dist3d (lm ! 8) (lm ! 4) / hand_size lm) now
       = Inr (Some di, fdi)"
    "filter_call (filt_d_mid tr ! i) (dist3d (lm ! 12) (lm ! 4) / hand_size lm) now
       = Inr (Some dm, fdm)"
    "filt_d_idx tr' = (filt_d_idx tr)[i := fdi]" "filt_d_mid tr' = (filt_d_mid tr)[i := fdm]"
    "click_left hs = fst (pinch_machine_step (get_machine tr i ''idx'') di
                            (ext_flags lm ! 2 \<or> ext_flags lm ! 3) now)"
    "click_right hs = fst (pinch_machine_step (get_machine tr i ''mid'') dm
                            (ext_flags lm ! 2 \<or> ext_flags lm ! 3) now)"
    "slots_ok tr \<Longrightarrow>
       get_machine tr' i ''idx'' = snd (pinch_machine_step (get_machine tr i ''idx'') di
                            (ext_flags lm ! 2 \<or> ext_flags lm ! 3) now)"
    "slots_ok tr \<Longrightarrow>
       get_machine tr' i ''mid'' = snd (pinch_machine_step (get_machine tr i ''mid'') dm
                            (ext_flags lm ! 2 \<or> ext_flags lm ! 3) now)"
    "\<And>j w. j \<noteq> i \<Longrightarrow> get_machine tr' j w = get_machine tr j w"
proof -
  let ?q = "ext_flags lm ! 2 \<or> ext_flags lm ! 3"
  let ?c = "\<not> list_ex (\<lambda>b. b) (ext_flags lm)"
  obtain hs2 tr1 d_idx d_mid tr2 where
    c: "process_cursor tr lm i now
          (HandState\<lparr>detected := True, landmarks := map (\<lambda>l. (lm_x l, lm_y l)) lm\<rparr>)
          = Inr (hs2, tr1)"
    and d: "process_distances tr1 lm i now = Inr ((d_idx, d_mid), tr2)"
    and g: "process_gestures tr2 lm i now d_idx d_mid hs2 = Inr (hs, tr')"
    using assms by (rule process_InrE)
  from c obtain vx fx vy fy where
    i: "i < 2"
    and tr1: "tr1 = tr\<lparr>filt_x := (filt_x tr)[i := fx],
              filt_y := (filt_y tr)[i := fy],
              prev_x := (prev_x tr)[i := max 0 (min 1 vx)],
              prev_y := (prev_y tr)[i := max 0 (min 1 vy)],
              prev_t := (prev_t tr)[i := now]\<rparr>"
    by (rule process_cursor_InrE)
  from d obtain fdi fdm where
    2: "filter_call (filt_d_idx tr1 ! i) (dist3d (lm ! 8) (lm ! 4) / hand_size lm) now
       = Inr (d_idx, fdi)"
       "filter_call (filt_d_mid tr1 ! i) (dist3d (lm ! 12) (lm ! 4) / hand_size lm) now
       = Inr (d_mid, fdm)"
    and tr2: "tr2 = tr1\<lparr>filt_d_idx := (filt_d_idx tr1)[i := fdi],
              filt_d_mid := (filt_d_mid tr1)[i := fdm]\<rparr>"
    by (rule process_distances_InrE)
  from g obtain di dm t1 t2 where
    3: "d_idx = Some di" "d_mid = Some dm"
    and t1: "t1 = snd (pinch tr2 i ''idx'' di ?q now)"
    and t2: "t2 = snd (pinch t1 i ''mid'' dm ?q now)"
    and hs: "hs = hs2\<lparr>click_left := fst (pinch tr2 i ''idx'' di ?q now),
              click_right := fst (pinch t1 i ''mid'' dm ?q now),
              is_peace := (ext_flags lm ! 0 \<and> ext_flags lm ! 1 \<and> \<not> ext_flags lm ! 2
                            \<and> \<not> ext_flags lm ! 3),
              is_open_palm := (ext_flags lm ! 0 \<and> ext_flags lm ! 1 \<and> ext_flags lm ! 2
                            \<and> ext_flags lm ! 3),
              is_fist := (8 \<le> fist_update (fist_cnt t2 ! i) ?c)\<rparr>"
    and tr': "tr' = t2\<lparr>fist_cnt := (fist_cnt t2)[i := fist_update (fist_cnt t2 ! i) ?c]\<rparr>"
    by (rule process_gestures_InrE)
  have m2: "get_machine tr2 j w = get_machine tr j w" for j w
    by (simp add: tr2 tr1 get_machine_def)
  have ok2: "slots_ok tr2" if "slots_ok tr"
    using that by (simp add: tr2 tr1 slots_ok_def)
  have mt1: "get_machine t1 i ''mid'' = get_machine tr i ''mid''"
    unfolding t1 using m2 by (simp add: pinch_get_other_pair)
  have gfin: "get_machine tr' j w = get_machine t2 j w" for j w
    by (simp add: tr' get_machine_def)
  have cl: "click_left hs = fst (pinch_machine_step (get_machine tr i ''idx'') di ?q now)"
    by (simp add: hs pinch_fst m2)
  have cr: "click_right hs = fst (pinch_machine_step (get_machine tr i ''mid'') dm ?q now)"
    by (simp add: hs pinch_fst mt1)
  have fd: "filt_d_idx tr' = (filt_d_idx tr)[i := fdi]"
    "filt_d_mid tr' = (filt_d_mid tr)[i := fdm]"
    by (simp_all add: tr' t2 t1 pinch_frame tr2 tr1)
  have f1: "filt_d_idx tr1 = filt_d_idx tr" "filt_d_mid tr1 = filt_d_mid tr"
    by (simp_all add: tr1)
  have gi: "get_machine tr' i ''idx''
              = snd (pinch_machine_step (get_machine tr i ''idx'') di ?q now)"
    if "slots_ok tr"
  proof -
    have "get_machine t2 i ''idx'' = get_machine t1 i ''idx''"
      unfolding t2 by (simp add: pinch_get_other_pair)
    also have "\<dots> = snd (pinch_machine_step (get_machine tr2 i ''idx'') di ?q now)"
      unfolding t1 using ok2 [OF that] i by (rule pinch_get_same)
    finally show ?thesis by (simp add: gfin m2)
  qed
  have gm: "get_machine tr' i ''mid''
              = snd (pinch_machine_step (get_machine tr i ''mid'') dm ?q now)"
    if "slots_ok tr"
  proof -
    have okt1: "slots_ok t1" unfolding t1 using ok2 [OF that] by (rule pinch_slots_ok)
    have "get_machine t2 i ''mid'' = snd (pinch_machine_step (get_machine t1 i ''mid'') dm ?q now)"
      unfolding t2 using okt1 i by (rule pinch_get_same)
    then show ?thesis by (simp add: gfin mt1)
  qed
  have other: "get_machine tr' j w = get_machine tr j w" if "j \<noteq> i" for j w
    using that by (simp add: gfin t2 t1 pinch_get_other_slot m2)
  have 4: "filter_call (filt_d_idx tr ! i) (dist3d (lm ! 8) (lm ! 4) / hand_size lm) now
       = Inr (Some di, fdi)"
       "filter_call (filt_d_mid tr ! i) (dist3d (lm ! 12) (lm ! 4) / hand_size lm) now
       = Inr (Some dm, fdm)"
    using 2 3 f1 by simp_all
  show ?thesis
    using 4 fd cl cr gi gm other by (rule that)
qed

section \<open>The pipeline on well-formed trackers\<close>

text \<open>
  On a well-formed tracker, a hand with all 21 landmarks in slot 0 or 1 is processed
  without an exception, and the tracker stays well-formed.
\<close>

lemma list_all_upd: "list_all P xs \<Longrightarrow> P v \<Longrightarrow> list_all P (xs[i := v])"
  by (induction xs arbitrary: i) (auto split: nat.splits)

lemma list_all_nthD: "list_all P xs \<Longrightarrow> i < length xs \<Longrightarrow> P (xs ! i)"
  by (simp add: list_all_length)

lemma process_cursor_total:
  assumes "tracker_ok tr" and "i < 2" and "8 < length lm"
  obtains hs' tr' where "process_cursor tr lm i now hs = Inr (hs', tr')" "tracker_ok tr'"
proof -
  from assms have okx: "filter_ok (filt_x tr ! i)" and oky: "filter_ok (filt_y tr ! i)"
    by (simp_all add: tracker_ok_def slots_ok_def list_all_nthD)
  from okx obtain vx fx where
    x: "filter_call (filt_x tr ! i) (lm_x (lm ! 8)) now = Inr (Some vx, fx)" "filter_ok fx"
    by (rule filter_call_ok)
  from oky obtain vy fy where
    y: "filter_call (filt_y tr ! i) (lm_y (lm ! 8)) now = Inr (Some vy, fy)" "filter_ok fy"
    by (rule filter_call_ok)
  let ?tr' = "tr\<lparr>filt_x := (filt_x tr)[i := fx],
              filt_y := (filt_y tr)[i := fy],
              prev_x := (prev_x tr)[i := max 0 (min 1 vx)],
              prev_y := (prev_y tr)[i := max 0 (min 1 vy)],
              prev_t := (prev_t tr)[i := now]\<rparr>"
  have r: "process_cursor tr lm i now hs =
      Inr (hs\<lparr>hs_x := max 0 (min 1 vx), hs_y := max 0 (min 1 vy),
              velocity := (if now - prev_t tr ! i > 0
                           then hypot (max 0 (min 1 vx) - prev_x tr ! i)
                                      (max 0 (min 1 vy) - prev_y tr ! i) / (now - prev_t tr ! i)
                           else velocity hs)\<rparr>, ?tr')"
    using assms(2,3) x(1) y(1) by (simp add: process_cursor_def Let_def)
  have "tracker_ok ?tr'"
    using assms(1) x(2) y(2) by (simp add: tracker_ok_def slots_ok_def list_all_upd)
  with r show ?thesis by (rule that)
qed

lemma process_distances_total:
  assumes "tracker_ok tr" and "i < 2" and "12 < length lm"
  obtains di dm tr' where
    "process_distances tr lm i now = Inr ((Some di, Some dm), tr')" "tracker_ok tr'"
proof -
  from assms have oki: "filter_ok (filt_d_idx tr ! i)" and okm: "filter_ok (filt_d_mid tr ! i)"
    by (simp_all add: tracker_ok_def slots_ok_def list_all_nthD)
  from oki obtain di fdi where
    a: "filter_call (filt_d_idx tr ! i) (dist3d (lm ! 8) (lm ! 4) / hand_size lm) now
          = Inr (Some di, fdi)" "filter_ok fdi"
    by (rule filter_call_ok)
  from okm obtain dm fdm where
    b: "filter_call (filt_d_mid tr ! i) (dist3d (lm ! 12) (lm ! 4) / hand_size lm) now
          = Inr (Some dm, fdm)" "filter_ok fdm"
    by (rule filter_call_ok)
  let ?tr' = "tr\<lparr>filt_d_idx := (filt_d_idx tr)[i := fdi],
                 filt_d_mid := (filt_d_mid tr)[i := fdm]\<rparr>"
  have r: "process_distances tr lm i now = Inr ((Some di, Some dm), ?tr')"
    using assms(3) a(1) b(1) by (simp add: process_distances_def Let_def)
  have "tracker_ok ?tr'"
    using assms(1) a(2) b(2) by (simp add: tracker_ok_def slots_ok_def list_all_upd)
  with r show ?thesis by (rule that)
qed

lemma process_gestures_total:
  assumes "tracker_ok tr" and "20 < length lm"
  obtains hs' tr' where
    "process_gestures tr lm i now (Some di) (Some dm) hs = Inr (hs', tr')" "tracker_ok tr'"
proof -
  let ?q = "ext_flags lm ! 2 \<or> ext_flags lm ! 3"
  let ?t1 = "snd (pinch tr i ''idx'' di ?q now)"
  let ?t2 = "snd (pinch ?t1 i ''mid'' dm ?q now)"
  let ?c = "fist_update (fist_cnt ?t2 ! i) (\<not> list_ex (\<lambda>b. b) (ext_flags lm))"
  have ok2: "tracker_ok ?t2" using assms(1) by (intro pinch_tracker_ok)
  then have ok: "tracker_ok (?t2\<lparr>fist_cnt := (fist_cnt ?t2)[i := ?c]\<rparr>)"
    by (simp add: tracker_ok_def slots_ok_def)
  have "\<exists>hs'. process_gestures tr lm i now (Some di) (Some dm) hs
          = Inr (hs', ?t2\<lparr>fist_cnt := (fist_cnt ?t2)[i := ?c]\<rparr>)"
    using assms(2) by (simp add: process_gestures_def Let_def case_prod_beta)
  with ok show ?thesis using that by blast
qed

lemma process_total:
  assumes "tracker_ok tr" and "i < 2" and "20 < length lm"
  obtains hs tr' where "process tr lm i now = Inr (hs, tr')" "tracker_ok tr'"
proof -
  let ?hs1 = "HandState\<lparr>detected := True, landmarks := map (\<lambda>l. (lm_x l, lm_y l)) lm\<rparr>"
  from assms(3) have l8: "8 < length lm" and l12: "12 < length lm" by simp_all
  obtain hs2 tr1 where
    c: "process_cursor tr lm i now ?hs1 = Inr (hs2, tr1)" and ok1: "tracker_ok tr1"
    using assms(1,2) l8 by (rule process_cursor_total)
  obtain di dm tr2 where
    d: "process_distances tr1 lm i now = Inr ((Some di, Some dm), tr2)" and ok2: "tracker_ok tr2"
    using ok1 assms(2) l12 by (rule process_distances_total)
  obtain hs tr' where
    g: "process_gestures tr2 lm i now (Some di) (Some dm) hs2 = Inr (hs, tr')"
    and ok: "tracker_ok tr'"
    using ok2 assms(3) by (rule process_gestures_total)
  have "process tr lm i now = Inr (hs, tr')"
    using c d g by (simp add: process_def Let_def)
  with ok show ?thesis using that by blast
qed

lemma HandTracker_init_ok: "tracker_ok (HandTracker_init t_c)"
  by (simp add: tracker_ok_def slots_ok_def HandTracker_init_def filter_ok_def
      OneEuroFilter_init_def)

section \<open>Geometry of the landmarks\<close>

lemma hypot_nonneg: "0 \<le> hypot a b"
  by (simp add: hypot_def)

lemma hypot_eq_0_iff: "hypot a b = 0 \<longleftrightarrow> a = 0 \<and> b = 0"
proof -
  have "a * a + b * b = 0 \<longleftrightarrow> a = 0 \<and> b = 0"
    using sum_squares_eq_zero_iff [of a b] by simp
  then show ?thesis by (simp add: hypot_def)
qed

lemma hypot_axis: "hypot a 0 = \<bar>a\<bar>" "hypot 0 b = \<bar>b\<bar>"
  by (simp_all add: hypot_def)

lemma dist3d_nonneg: "0 \<le> dist3d a b"
  by (simp add: dist3d_def Let_def)

lemma dist3d_pt: "dist3d (pt x y) (pt x' y) = \<bar>x - x'\<bar>"
  by (simp add: dist3d_def pt_def Let_def)

lemma hand_size_floor: "0.01 \<le> hand_size lm"
  by (simp add: hand_size_def Let_def)

lemma hand_size_pos: "0 < hand_size lm"
proof -
  have "(0::real) < 0.01" by simp
  also have "\<dots> \<le> hand_size lm" by (rule hand_size_floor)
  finally show ?thesis .
qed

lemma axis_hand_length: "length (axis_hand s d) = 21"
  by (simp add: axis_hand_def)

lemma axis_hand_nth:
  "axis_hand s d ! 0 = pt 0 0" "axis_hand s d ! 4 = pt 0 0" "axis_hand s d ! 5 = pt s 0"
  "axis_hand s d ! 6 = pt 0 0" "axis_hand s d ! 8 = pt d 0" "axis_hand s d ! 10 = pt 0 0"
  "axis_hand s d ! 12 = pt 0 0" "axis_hand s d ! 14 = pt (s / 2) 0"
  "axis_hand s d ! 16 = pt s 0" "axis_hand s d ! 18 = pt 0 0" "axis_hand s d ! 20 = pt 0 0"
  by (simp_all add: axis_hand_def)

lemma pt_sel: "lm_x (pt x y) = x" "lm_y (pt x y) = y" "lm_z (pt x y) = 0"
  by (simp_all add: pt_def)

lemma axis_hand_ext:
  "ext_flags (axis_hand s d) = [d \<noteq> 0, False, s \<noteq> 0, False]"
  by (simp add: ext_flags_def extended_def Let_def axis_hand_nth pt_sel hypot_axis)

lemma axis_hand_size: "hand_size (axis_hand s d) = (if \<bar>s\<bar> < 0.01 then 0.1 else \<bar>s\<bar>)"
  by (simp add: hand_size_def Let_def axis_hand_nth dist3d_pt)

lemma axis_hand_dist:
  "dist3d (axis_hand s d ! 8) (axis_hand s d ! 4) = \<bar>d\<bar>"
  "dist3d (axis_hand s d ! 12) (axis_hand s d ! 4) = 0"
  by (simp_all add: axis_hand_nth dist3d_pt)

section \<open>The sustained poses\<close>

lemma ext_flags_length: "length (ext_flags lm) = 4"
  by (simp add: ext_flags_def)

lemma curled_no_flag:
  assumes "\<not> list_ex (\<lambda>b. b) (ext_flags lm)"
  shows "\<not> ext_flags lm ! 0" "\<not> ext_flags lm ! 1" "\<not> ext_flags lm ! 2" "\<not> ext_flags lm ! 3"
  using assms by (simp_all add: ext_flags_def)

lemma fist_update_ge8: "8 \<le> fist_update c b \<Longrightarrow> b"
  by (simp add: fist_update_def split: if_splits)

text \<open>
  Claim C9. In the hand result of a frame that was processed without an exception, the
  hand is marked detected, and: when \<open>is_fist\<close> is set, the frame has no extension flag
  set (otherwise the counter would have been reset to 0) and neither \<open>is_peace\<close> nor
  \<open>is_open_palm\<close> is set; \<open>is_peace\<close> and \<open>is_open_palm\<close> are never both set, the one
  needing ring and pinky not extended and the other all four fingers extended.
\<close>

theorem pose_flags_exclusive:
  assumes "process tr lm i now = Inr (hs, tr')"
  shows "detected hs \<and>
         (is_fist hs \<longrightarrow> \<not> list_ex (\<lambda>b. b) (ext_flags lm)) \<and>
         (is_fist hs \<longrightarrow> \<not> is_peace hs \<and> \<not> is_open_palm hs) \<and>
         (is_peace hs \<longrightarrow> \<not> ext_flags lm ! 2 \<and> \<not> ext_flags lm ! 3) \<and>
         (is_open_palm hs \<longrightarrow>
            ext_flags lm ! 0 \<and> ext_flags lm ! 1 \<and> ext_flags lm ! 2 \<and> ext_flags lm ! 3) \<and>
         \<not> (is_peace hs \<and> is_open_palm hs) \<and>
         \<not> (is_fist hs \<and> is_peace hs) \<and> \<not> (is_fist hs \<and> is_open_palm hs)"
proof -
  note p = process_poses [OF assms]
  have det: "detected hs" by (rule p(7))
  have fc: "\<not> list_ex (\<lambda>b. b) (ext_flags lm)" if "is_fist hs"
    using that p(5) fist_update_ge8 by blast
  have fp: "\<not> is_peace hs \<and> \<not> is_open_palm hs" if "is_fist hs"
    using curled_no_flag [OF fc [OF that]] p(3) p(4) by simp
  have pk: "\<not> ext_flags lm ! 2 \<and> \<not> ext_flags lm ! 3" if "is_peace hs"
    using that p(3) by simp
  have op: "ext_flags lm ! 0 \<and> ext_flags lm ! 1 \<and> ext_flags lm ! 2 \<and> ext_flags lm ! 3"
    if "is_open_palm hs"
    using that p(4) by simp
  from det fc fp pk op show ?thesis by blast
qed

theorem pose_flags_exclusive_witness:
  "\<not> isl (process ((HandTracker_init 0)\<lparr>fist_cnt := [7, 0]\<rparr>) (axis_hand 0 0) 0 1) \<and>
   is_fist (fst (projr (process ((HandTracker_init 0)\<lparr>fist_cnt := [7, 0]\<rparr>) (axis_hand 0 0) 0 1))) \<and>
   \<not> is_peace (fst (projr (process ((HandTracker_init 0)\<lparr>fist_cnt := [7, 0]\<rparr>) (axis_hand 0 0) 0 1))) \<and>
   \<not> is_open_palm (fst (projr (process ((HandTracker_init 0)\<lparr>fist_cnt := [7, 0]\<rparr>) (axis_hand 0 0) 0 1))) \<and>
   \<not> isl (process (HandTracker_init 0) (axis_hand 1 0.5) 0 1) \<and>
   \<not> is_fist (fst (projr (process (HandTracker_init 0) (axis_hand 1 0.5) 0 1)))"
proof -
  let ?tr = "(HandTracker_init 0)\<lparr>fist_cnt := [7, 0]\<rparr>"
  have ok: "tracker_ok ?tr"
    using HandTracker_init_ok [of 0] by (simp add: tracker_ok_def slots_ok_def)
  obtain hs tr' where r: "process ?tr (axis_hand 0 0) 0 1 = Inr (hs, tr')"
    using ok by (rule process_total [where i = 0 and lm = "axis_hand 0 0"])
      (simp_all add: axis_hand_length)
  have "is_fist hs = (8 \<le> fist_update (fist_cnt ?tr ! 0)
                             (\<not> list_ex (\<lambda>b. b) (ext_flags (axis_hand 0 0))))"
    by (rule process_poses(5) [OF r])
  then have f: "is_fist hs"
    by (simp add: axis_hand_ext fist_update_def)
  from pose_flags_exclusive [OF r] f have n: "\<not> is_peace hs \<and> \<not> is_open_palm hs" by blast
  obtain hs2 tr2 where r2: "process (HandTracker_init 0) (axis_hand 1 0.5) 0 1 = Inr (hs2, tr2)"
    using HandTracker_init_ok [of 0]
    by (rule process_total [where i = 0 and lm = "axis_hand 1 0.5"])
      (simp_all add: axis_hand_length)
  have "list_ex (\<lambda>b. b) (ext_flags (axis_hand 1 0.5))" by (simp add: axis_hand_ext)
  with pose_flags_exclusive [OF r2] have n2: "\<not> is_fist hs2" by blast
  from r f n r2 n2 show ?thesis by simp
qed

section \<open>The fist counter\<close>

lemma process_ok:
  assumes "tracker_ok tr" and "process tr lm i now = Inr (hs, tr')"
  shows "tracker_ok tr'"
proof -
  note p = process_poses [OF assms(2)]
  obtain hs2 tr2 where "process tr lm i now = Inr (hs2, tr2)" "tracker_ok tr2"
    using assms(1) p(1) p(2) by (rule process_total)
  with assms(2) show ?thesis by simp
qed

lemma process_fist:
  assumes "tracker_ok tr" and "process tr lm i now = Inr (hs, tr')"
  shows "fist_cnt tr' ! i = fist_update (fist_cnt tr ! i) (all_curled lm)"
    and "is_fist hs = (8 \<le> fist_update (fist_cnt tr ! i) (all_curled lm))"
    and "j \<noteq> i \<Longrightarrow> fist_cnt tr' ! j = fist_cnt tr ! j"
proof -
  note p = process_poses [OF assms(2)]
  from assms(1) p(1) have l: "i < length (fist_cnt tr)"
    by (simp add: tracker_ok_def slots_ok_def)
  show "fist_cnt tr' ! i = fist_update (fist_cnt tr ! i) (all_curled lm)"
    using l by (simp add: p(6) all_curled_def)
  show "is_fist hs = (8 \<le> fist_update (fist_cnt tr ! i) (all_curled lm))"
    by (simp add: p(5) all_curled_def)
  show "fist_cnt tr' ! j = fist_cnt tr ! j" if "j \<noteq> i"
    using that by (simp add: p(6))
qed

lemma process_seq_ConsE:
  assumes "process_seq tr i ((lm, now) # fs) = Inr (hss, tr'')"
  obtains hs tr1 hss' where
    "process tr lm i now = Inr (hs, tr1)" "process_seq tr1 i fs = Inr (hss', tr'')"
    "hss = hs # hss'"
  using assms by (auto split: sum.splits prod.splits)

lemma process_seq_total:
  assumes "tracker_ok tr" and "i < 2" and "list_all (\<lambda>f. 20 < length (fst f)) fs"
  obtains hss tr' where "process_seq tr i fs = Inr (hss, tr')" "tracker_ok tr'"
proof -
  have "\<exists>hss tr'. process_seq tr i fs = Inr (hss, tr') \<and> tracker_ok tr'"
    using assms(1,3)
  proof (induction fs arbitrary: tr)
    case Nil
    then show ?case by simp
  next
    case (Cons f fs)
    obtain lm now where f: "f = (lm, now)" by (cases f) auto
    from Cons.prems(2) f have l: "20 < length lm" and r: "list_all (\<lambda>f. 20 < length (fst f)) fs"
      by simp_all
    obtain hs tr1 where p: "process tr lm i now = Inr (hs, tr1)" and ok1: "tracker_ok tr1"
      using Cons.prems(1) assms(2) l by (rule process_total)
    from Cons.IH [OF ok1 r] obtain hss tr' where
      "process_seq tr1 i fs = Inr (hss, tr')" "tracker_ok tr'" by blast
    with p f show ?case by simp
  qed
  then show ?thesis using that by blast
qed

text \<open>The counter after a sequence of frames, by the number of all-curled frames at its end.\<close>

lemma fist_count_run:
  assumes "fs \<noteq> []"
  shows "foldl (\<lambda>c f. fist_update c (all_curled (fst f))) c fs =
           (if curled_run fs = length fs then min (c + length fs) 20
            else min (curled_run fs) 20)"
  using assms
proof (induction fs rule: rev_induct)
  case Nil
  then show ?case by simp
next
  case (snoc f fs)
  show ?case
  proof (cases "fs = []")
    case True
    then show ?thesis by (simp add: curled_run_def fist_update_def)
  next
    case False
    have le: "curled_run fs \<le> length fs"
      unfolding curled_run_def using length_takeWhile_le [of _ "rev fs"] by simp
    from snoc.IH [OF False] le show ?thesis
      by (auto simp: curled_run_def fist_update_def)
  qed
qed

lemma process_seq_fist:
  assumes "tracker_ok tr" and "process_seq tr i fs = Inr (hss, tr')"
  shows "length hss = length fs"
    and "fist_cnt tr' ! i = foldl (\<lambda>c f. fist_update c (all_curled (fst f))) (fist_cnt tr ! i) fs"
    and "k < length fs \<Longrightarrow>
           is_fist (hss ! k) =
             (8 \<le> foldl (\<lambda>c f. fist_update c (all_curled (fst f))) (fist_cnt tr ! i)
                     (take (Suc k) fs))"
proof -
  have "length hss = length fs \<and>
        fist_cnt tr' ! i
          = foldl (\<lambda>c f. fist_update c (all_curled (fst f))) (fist_cnt tr ! i) fs \<and>
        (\<forall>k<length fs. is_fist (hss ! k) =
             (8 \<le> foldl (\<lambda>c f. fist_update c (all_curled (fst f))) (fist_cnt tr ! i)
                     (take (Suc k) fs)))"
    using assms
  proof (induction fs arbitrary: tr hss)
    case Nil
    then show ?case by simp
  next
    case (Cons f fs)
    obtain lm now where f: "f = (lm, now)" by (cases f) auto
    from Cons.prems(2) obtain hs tr1 hss' where
      p: "process tr lm i now = Inr (hs, tr1)"
      and s: "process_seq tr1 i fs = Inr (hss', tr')"
      and h: "hss = hs # hss'"
      unfolding f by (rule process_seq_ConsE)
    have ok1: "tracker_ok tr1" using Cons.prems(1) p by (rule process_ok)
    note pf = process_fist [OF Cons.prems(1) p]
    note ih = Cons.IH [OF ok1 s]
    have a: "length hss = length (f # fs)" using ih h by simp
    have b: "fist_cnt tr' ! i
          = foldl (\<lambda>c f. fist_update c (all_curled (fst f))) (fist_cnt tr ! i) (f # fs)"
      using ih pf(1) by (simp add: f)
    have c: "is_fist (hss ! k) =
             (8 \<le> foldl (\<lambda>c f. fist_update c (all_curled (fst f))) (fist_cnt tr ! i)
                     (take (Suc k) (f # fs)))" if "k < length (f # fs)" for k
    proof (cases k)
      case 0
      then show ?thesis using pf(2) by (simp add: h f)
    next
      case (Suc k')
      with that have "k' < length fs" by simp
      with ih have "is_fist (hss' ! k') =
             (8 \<le> foldl (\<lambda>c f. fist_update c (all_curled (fst f))) (fist_cnt tr1 ! i)
                     (take (Suc k') fs))" by blast
      then show ?thesis using Suc pf(1) by (simp add: h f)
    qed
    from a b c show ?case by blast
  qed
  then show "length hss = length fs"
    and "fist_cnt tr' ! i = foldl (\<lambda>c f. fist_update c (all_curled (fst f))) (fist_cnt tr ! i) fs"
    and "k < length fs \<Longrightarrow>
           is_fist (hss ! k) =
             (8 \<le> foldl (\<lambda>c f. fist_update c (all_curled (fst f))) (fist_cnt tr ! i)
                     (take (Suc k) fs))"
    by blast+
qed

text \<open>
  Claim C5. Let the frames \<open>fs\<close> be processed for slot \<open>i\<close> one after the other, none of
  them raising an exception. Then \<open>is_fist\<close> of frame \<open>k\<close> is set exactly when the counter
  after that frame is at least 8. When the counter was 0 before the first frame (as in a
  new tracker, or after a frame that was not all-curled), this is exactly when the
  all-curled condition has held on at least 8 consecutive frames up to and including
  frame \<open>k\<close>: seven such frames do not set the flag and the eighth does. The counter after
  the frames is the length of the run of all-curled frames at their end (plus the earlier
  count when every frame was all-curled), capped at 20; it is 0 after a frame that is not
  all-curled.
\<close>

theorem fist_sustain:
  assumes "tracker_ok tr" and "process_seq tr i fs = Inr (hss, tr')"
  shows "length hss = length fs \<and>
         (\<forall>k<length fs. is_fist (hss ! k) =
            (if curled_run (take (Suc k) fs) = Suc k then 8 \<le> fist_cnt tr ! i + Suc k
             else 8 \<le> curled_run (take (Suc k) fs))) \<and>
         (fist_cnt tr ! i = 0 \<longrightarrow>
            (\<forall>k<length fs. is_fist (hss ! k) = (8 \<le> curled_run (take (Suc k) fs)))) \<and>
         (fs \<noteq> [] \<longrightarrow>
            fist_cnt tr' ! i =
              (if curled_run fs = length fs then min (fist_cnt tr ! i + length fs) 20
               else min (curled_run fs) 20)) \<and>
         (fs \<noteq> [] \<longrightarrow> fist_cnt tr' ! i \<le> 20) \<and>
         (fs \<noteq> [] \<and> \<not> all_curled (fst (last fs)) \<longrightarrow> fist_cnt tr' ! i = 0)"
proof -
  note s = process_seq_fist [OF assms]
  let ?c = "fist_cnt tr ! i"
  have A: "length hss = length fs" by (rule s(1))
  have B: "is_fist (hss ! k) =
            (if curled_run (take (Suc k) fs) = Suc k then 8 \<le> ?c + Suc k
             else 8 \<le> curled_run (take (Suc k) fs))" if "k < length fs" for k
  proof -
    from that have ne: "take (Suc k) fs \<noteq> []" and len: "length (take (Suc k) fs) = Suc k"
      by auto
    have "is_fist (hss ! k) =
             (8 \<le> foldl (\<lambda>c f. fist_update c (all_curled (fst f))) ?c (take (Suc k) fs))"
      using that by (rule s(3))
    then show ?thesis
      unfolding fist_count_run [OF ne] len by auto
  qed
  have le: "curled_run xs \<le> length xs" for xs
    unfolding curled_run_def using length_takeWhile_le [of _ "rev xs"] by simp
  have C: "is_fist (hss ! k) = (8 \<le> curled_run (take (Suc k) fs))"
    if "?c = 0" and "k < length fs" for k
  proof -
    from that(2) have len: "length (take (Suc k) fs) = Suc k" by auto
    show ?thesis
      using B [OF that(2)] that(1) by auto
  qed
  have D: "fist_cnt tr' ! i =
              (if curled_run fs = length fs then min (?c + length fs) 20
               else min (curled_run fs) 20)" if "fs \<noteq> []"
    using s(2) fist_count_run [OF that] by simp
  have E: "fist_cnt tr' ! i \<le> 20" if "fs \<noteq> []"
    using D [OF that] by simp
  have F: "fist_cnt tr' ! i = 0" if "fs \<noteq> []" and "\<not> all_curled (fst (last fs))"
  proof -
    from that(1) obtain ys y where fs: "fs = ys @ [y]" by (cases fs rule: rev_cases) auto
    with that(2) have "curled_run fs = 0" by (simp add: curled_run_def)
    with D [OF that(1)] that(1) show ?thesis by simp
  qed
  from A B C D E F show ?thesis by blast
qed

theorem fist_sustain_witness:
  "\<not> isl (process_seq (HandTracker_init 0) 0
       [(axis_hand 0 0, 1), (axis_hand 0 0, 2), (axis_hand 0 0, 3), (axis_hand 0 0, 4),
        (axis_hand 0 0, 5), (axis_hand 0 0, 6), (axis_hand 0 0, 7), (axis_hand 0 0, 8),
        (axis_hand 1 0.5, 9)]) \<and>
   \<not> is_fist (fst (projr (process_seq (HandTracker_init 0) 0
       [(axis_hand 0 0, 1), (axis_hand 0 0, 2), (axis_hand 0 0, 3), (axis_hand 0 0, 4),
        (axis_hand 0 0, 5), (axis_hand 0 0, 6), (axis_hand 0 0, 7), (axis_hand 0 0, 8),
        (axis_hand 1 0.5, 9)])) ! 6) \<and>
   is_fist (fst (projr (process_seq (HandTracker_init 0) 0
       [(axis_hand 0 0, 1), (axis_hand 0 0, 2), (axis_hand 0 0, 3), (axis_hand 0 0, 4),
        (axis_hand 0 0, 5), (axis_hand 0 0, 6), (axis_hand 0 0, 7), (axis_hand 0 0, 8),
        (axis_hand 1 0.5, 9)])) ! 7) \<and>
   \<not> is_fist (fst (projr (process_seq (HandTracker_init 0) 0
       [(axis_hand 0 0, 1), (axis_hand 0 0, 2), (axis_hand 0 0, 3), (axis_hand 0 0, 4),
        (axis_hand 0 0, 5), (axis_hand 0 0, 6), (axis_hand 0 0, 7), (axis_hand 0 0, 8),
        (axis_hand 1 0.5, 9)])) ! 8) \<and>
   fist_cnt (snd (projr (process_seq (HandTracker_init 0) 0
       [(axis_hand 0 0, 1), (axis_hand 0 0, 2), (axis_hand 0 0, 3), (axis_hand 0 0, 4),
        (axis_hand 0 0, 5), (axis_hand 0 0, 6), (axis_hand 0 0, 7), (axis_hand 0 0, 8),
        (axis_hand 1 0.5, 9)]))) ! 0 = 0"
proof -
  let ?fs = "[(axis_hand 0 0, 1), (axis_hand 0 0, 2), (axis_hand 0 0, 3), (axis_hand 0 0, 4),
        (axis_hand 0 0, 5), (axis_hand 0 0, 6), (axis_hand 0 0, 7), (axis_hand 0 0, 8),
        (axis_hand 1 0.5, 9)] :: (landmark list \<times> real) list"
  have c: "all_curled (axis_hand 0 0)" "\<not> all_curled (axis_hand 1 0.5)"
    by (simp_all add: all_curled_def axis_hand_ext)
  obtain hss tr' where r: "process_seq (HandTracker_init 0) 0 ?fs = Inr (hss, tr')"
    using HandTracker_init_ok [of 0]
    by (rule process_seq_total [where i = 0 and fs = ?fs]) (simp_all add: axis_hand_length)
  have z: "fist_cnt (HandTracker_init 0) ! 0 = 0" by (simp add: HandTracker_init_def)
  note t = fist_sustain [OF HandTracker_init_ok r]
  from t z have k: "\<forall>k<length ?fs. is_fist (hss ! k) = (8 \<le> curled_run (take (Suc k) ?fs))"
    by blast
  have k6: "\<not> is_fist (hss ! 6)"
    using k [rule_format, of 6] c by (simp add: curled_run_def)
  have k7: "is_fist (hss ! 7)"
    using k [rule_format, of 7] c by (simp add: curled_run_def)
  have k8: "\<not> is_fist (hss ! 8)"
    using k [rule_format, of 8] c by (simp add: curled_run_def)
  from t c have f: "fist_cnt tr' ! 0 = 0" by simp
  from r k6 k7 k8 f show ?thesis by simp
qed

section \<open>A frame without hands\<close>

text \<open>
  Claim C8. An iteration of the loop on a captured frame in which the detector reports no
  hand raises nothing and publishes a snapshot with \<open>num_hands = 0\<close> and both hand
  results the default \<open>HandState\<close>, which is not detected. The filters, the state, the
  counters and the click times of the pinch machines, the fist counters and the previous
  cursor positions and times are what they were before the iteration.
\<close>

theorem zero_hands_frame:
  "\<exists>tr'. loop_iteration tr t0 True [] t1 = Inr tr' \<and>
     num_hands (get_state tr') = 0 \<and>
     primary (get_state tr') = HandState \<and> secondary (get_state tr') = HandState \<and>
     \<not> detected (primary (get_state tr')) \<and> \<not> detected (secondary (get_state tr')) \<and>
     filt_x tr' = filt_x tr \<and> filt_y tr' = filt_y tr \<and>
     filt_d_idx tr' = filt_d_idx tr \<and> filt_d_mid tr' = filt_d_mid tr \<and>
     idx_state tr' = idx_state tr \<and> mid_state tr' = mid_state tr \<and>
     idx_count tr' = idx_count tr \<and> mid_count tr' = mid_count tr \<and>
     idx_exit tr' = idx_exit tr \<and> mid_exit tr' = mid_exit tr \<and>
     last_lclick tr' = last_lclick tr \<and> last_rclick tr' = last_rclick tr \<and>
     fist_cnt tr' = fist_cnt tr \<and>
     prev_x tr' = prev_x tr \<and> prev_y tr' = prev_y tr \<and> prev_t tr' = prev_t tr"
  by (simp add: loop_iteration_def Let_def get_state_def TrackerState_def HandState_def)

theorem zero_hands_frame_witness:
  "\<not> isl (loop_iteration (HandTracker_init 0) 1 True [] 1.02) \<and>
   num_hands (get_state (projr (loop_iteration (HandTracker_init 0) 1 True [] 1.02))) = 0 \<and>
   primary (get_state (projr (loop_iteration (HandTracker_init 0) 1 True [] 1.02))) = HandState \<and>
   idx_state (projr (loop_iteration (HandTracker_init 0) 1 True [] 1.02)) = [Open, Open] \<and>
   fist_cnt (projr (loop_iteration (HandTracker_init 0) 1 True [] 1.02)) = [0, 0]"
proof -
  obtain tr' where r: "loop_iteration (HandTracker_init 0) 1 True [] 1.02 = Inr tr'"
    and f: "num_hands (get_state tr') = 0" "primary (get_state tr') = HandState"
      "idx_state tr' = idx_state (HandTracker_init 0)"
      "fist_cnt tr' = fist_cnt (HandTracker_init 0)"
    using zero_hands_frame [of "HandTracker_init 0" 1 "1.02"] by blast
  from r f show ?thesis by (simp add: HandTracker_init_def)
qed

section \<open>The velocity on the first frame of a slot\<close>

lemma clamp_half:
  fixes v :: real
  shows "max 0 (min 1 v) = 0.5 \<longleftrightarrow> v = 0.5"
  by (auto simp: max_def min_def)

text \<open>
  Claim C10. A slot of a new tracker is unused, and stays so while frames are processed
  in the other slot or no hand is seen. On the first frame processed in an unused slot,
  at a clock value later than the one the constructor stored, the cursor is the clamped
  index fingertip and the velocity is its distance from the placeholder position
  (0.5, 0.5) divided by the time since the construction of the tracker; it is positive
  whenever the fingertip is not at the centre of the image.
\<close>

theorem first_frame_velocity:
  "(i < 2 \<longrightarrow> slot_unused (HandTracker_init t_c) i t_c) \<and>
   (slot_unused tr i t_c \<and> j \<noteq> i \<and> process tr lm' j now' = Inr (hs', tr1)
      \<longrightarrow> slot_unused tr1 i t_c) \<and>
   (slot_unused tr i t_c \<and> loop_iteration tr t0 True [] t1 = Inr tr2
      \<longrightarrow> slot_unused tr2 i t_c) \<and>
   (slot_unused tr i t_c \<and> t_c < now \<and> process tr lm i now = Inr (hs, tr') \<longrightarrow>
      hs_x hs = max 0 (min 1 (lm_x (lm ! 8))) \<and>
      hs_y hs = max 0 (min 1 (lm_y (lm ! 8))) \<and>
      velocity hs = hypot (hs_x hs - 0.5) (hs_y hs - 0.5) / (now - t_c) \<and>
      ((lm_x (lm ! 8), lm_y (lm ! 8)) \<noteq> (0.5, 0.5) \<longrightarrow> 0 < velocity hs))"
proof -
  have A: "slot_unused (HandTracker_init t_c) i t_c" if "i < 2"
  proof -
    from that have "i = 0 \<or> i = 1" by auto
    then show ?thesis
      by (auto simp: slot_unused_def HandTracker_init_def OneEuroFilter_init_def)
  qed
  have B: "slot_unused tr1 i t_c"
    if u: "slot_unused tr i t_c" and ji: "j \<noteq> i"
      and p: "process tr lm' j now' = Inr (hs', tr1)"
  proof -
    from p obtain vx fx vy fy where
      "filt_x tr1 = (filt_x tr)[j := fx]" "filt_y tr1 = (filt_y tr)[j := fy]"
      "prev_x tr1 = (prev_x tr)[j := hs_x hs']" "prev_y tr1 = (prev_y tr)[j := hs_y hs']"
      "prev_t tr1 = (prev_t tr)[j := now']"
      by (rule process_cursor_fields)
    with u ji show ?thesis by (simp add: slot_unused_def)
  qed
  have C: "slot_unused tr2 i t_c"
    if "slot_unused tr i t_c" and "loop_iteration tr t0 True [] t1 = Inr tr2"
    using that by (auto simp: loop_iteration_def Let_def slot_unused_def)
  have D: "hs_x hs = max 0 (min 1 (lm_x (lm ! 8))) \<and>
      hs_y hs = max 0 (min 1 (lm_y (lm ! 8))) \<and>
      velocity hs = hypot (hs_x hs - 0.5) (hs_y hs - 0.5) / (now - t_c) \<and>
      ((lm_x (lm ! 8), lm_y (lm ! 8)) \<noteq> (0.5, 0.5) \<longrightarrow> 0 < velocity hs)"
    if u: "slot_unused tr i t_c" and t: "t_c < now"
      and p: "process tr lm i now = Inr (hs, tr')"
  proof -
    from u have fr: "t_prev (filt_x tr ! i) = None" "t_prev (filt_y tr ! i) = None"
      and pv: "prev_x tr ! i = 0.5" "prev_y tr ! i = 0.5" "prev_t tr ! i = t_c"
      by (simp_all add: slot_unused_def)
    from p obtain vx fx vy fy where
      cx: "filter_call (filt_x tr ! i) (lm_x (lm ! 8)) now = Inr (Some vx, fx)"
      and cy: "filter_call (filt_y tr ! i) (lm_y (lm ! 8)) now = Inr (Some vy, fy)"
      and hx: "hs_x hs = max 0 (min 1 vx)" and hy: "hs_y hs = max 0 (min 1 vy)"
      and v: "velocity hs = (if now - prev_t tr ! i > 0
                    then hypot (hs_x hs - prev_x tr ! i) (hs_y hs - prev_y tr ! i)
                           / (now - prev_t tr ! i)
                    else 0)"
      by (rule process_cursor_fields)
    from cx fr(1) have vx: "vx = lm_x (lm ! 8)" by (simp add: filter_call_fresh)
    from cy fr(2) have vy: "vy = lm_y (lm ! 8)" by (simp add: filter_call_fresh)
    have x: "hs_x hs = max 0 (min 1 (lm_x (lm ! 8)))" using hx vx by simp
    have y: "hs_y hs = max 0 (min 1 (lm_y (lm ! 8)))" using hy vy by simp
    from t have dt: "0 < now - t_c" by simp
    have vel: "velocity hs = hypot (hs_x hs - 0.5) (hs_y hs - 0.5) / (now - t_c)"
      using v pv dt by simp
    have pos: "0 < velocity hs" if "(lm_x (lm ! 8), lm_y (lm ! 8)) \<noteq> (0.5, 0.5)"
    proof -
      from that have "lm_x (lm ! 8) \<noteq> 0.5 \<or> lm_y (lm ! 8) \<noteq> 0.5" by simp
      then have "hs_x hs \<noteq> 0.5 \<or> hs_y hs \<noteq> 0.5"
        unfolding x y clamp_half .
      then have "hypot (hs_x hs - 0.5) (hs_y hs - 0.5) \<noteq> 0"
        by (simp add: hypot_eq_0_iff)
      with hypot_nonneg [of "hs_x hs - 0.5" "hs_y hs - 0.5"]
      have "0 < hypot (hs_x hs - 0.5) (hs_y hs - 0.5)" by linarith
      with dt show ?thesis unfolding vel by (simp add: divide_pos_pos)
    qed
    from x y vel pos show ?thesis by blast
  qed
  from A B C D show ?thesis by blast
qed

theorem first_frame_velocity_witness:
  "slot_unused (HandTracker_init 1) 0 1 \<and>
   \<not> isl (process (HandTracker_init 1) (axis_hand 1 0.5) 0 2) \<and>
   hs_x (fst (projr (process (HandTracker_init 1) (axis_hand 1 0.5) 0 2))) = 0.5 \<and>
   hs_y (fst (projr (process (HandTracker_init 1) (axis_hand 1 0.5) 0 2))) = 0 \<and>
   velocity (fst (projr (process (HandTracker_init 1) (axis_hand 1 0.5) 0 2))) = 0.5"
proof -
  obtain hs tr' where r: "process (HandTracker_init 1) (axis_hand 1 0.5) 0 2 = Inr (hs, tr')"
    using HandTracker_init_ok [of 1]
    by (rule process_total [where i = 0 and lm = "axis_hand 1 0.5"])
      (simp_all add: axis_hand_length)
  note t = first_frame_velocity [where i = 0 and t_c = 1 and tr = "HandTracker_init 1"
      and now = 2 and lm = "axis_hand 1 0.5" and hs = hs and tr' = tr']
  from t have u: "slot_unused (HandTracker_init 1) 0 1" by simp
  from t u r have f: "hs_x hs = max 0 (min 1 (lm_x (axis_hand 1 0.5 ! 8)))"
    "hs_y hs = max 0 (min 1 (lm_y (axis_hand 1 0.5 ! 8)))"
    "velocity hs = hypot (hs_x hs - 0.5) (hs_y hs - 0.5) / (2 - 1)"
    by simp_all
  have x: "hs_x hs = 0.5" and y: "hs_y hs = 0"
    using f(1,2) by (simp_all add: axis_hand_nth pt_sel)
  have v: "velocity hs = 0.5"
    using f(3) by (simp add: x y hypot_axis)
  from u r x y v show ?thesis by simp
qed

section \<open>The pinch machines of the tracker\<close>

text \<open>
  \<open>_pinch\<close> on the tracker: the click it returns and the entries it leaves at slot \<open>i\<close> of
  the four lists of the pair are the step of the machine held there before the call, and
  a sequence of calls is a run of that machine.
\<close>

lemma open_step_ge:
  assumes "pm_state m = Open"
  shows "pinch_machine_step m d q now =
       (if d < 0.28 \<and> q \<and> now - pm_last m > 0.45
        then (if 4 \<le> pm_count m + 1
              then (True, m\<lparr>pm_state := Pinched, pm_count := 0, pm_last := now\<rparr>)
              else (False, m\<lparr>pm_count := pm_count m + 1\<rparr>))
        else (False, m\<lparr>pm_count := 0\<rparr>))"
  using assms by (auto simp: pinch_machine_step_def tracker_consts Let_def)

lemma pinched_step_ge:
  assumes "pm_state m = Pinched"
  shows "pinch_machine_step m d q now =
       (if d > 0.5
        then (if 3 \<le> pm_exit m + 1
              then (False, m\<lparr>pm_state := Open, pm_exit := 0\<rparr>)
              else (False, m\<lparr>pm_exit := pm_exit m + 1\<rparr>))
        else (False, m\<lparr>pm_exit := 0\<rparr>))"
  using assms by (auto simp: pinch_machine_step_def tracker_consts Let_def)

lemma pinch_pair:
  assumes "slots_ok tr" and "i < 2"
  shows "(fst (pinch tr i w d q now), get_machine (snd (pinch tr i w d q now)) i w)
           = pinch_machine_step (get_machine tr i w) d q now"
  using pinch_get_same [OF assms, of w d q now] by (simp add: pinch_fst prod_eq_iff)

lemma pinch_others:
  assumes "j \<noteq> i \<or> (w' = ''idx'') \<noteq> (w = ''idx'')"
  shows "get_machine (snd (pinch tr i w d q now)) j w' = get_machine tr j w'"
proof (cases "j \<noteq> i")
  case True
  then show ?thesis by (rule pinch_get_other_slot)
next
  case False
  with assms have "(w = ''idx'') \<noteq> (w' = ''idx'')" by blast
  then show ?thesis by (rule pinch_get_other_pair)
qed

lemma run_pinch_machine:
  assumes "slots_ok tr" and "i < 2"
  shows "fst (run_pinch tr i w fs) = run_clicks (get_machine tr i w) fs"
    and "get_machine (snd (run_pinch tr i w fs)) i w = run_machine (get_machine tr i w) fs"
proof -
  have "fst (run_pinch tr i w fs) = run_clicks (get_machine tr i w) fs \<and>
        get_machine (snd (run_pinch tr i w fs)) i w = run_machine (get_machine tr i w) fs"
    using assms(1)
  proof (induction fs arbitrary: tr)
    case Nil
    then show ?case by simp
  next
    case (Cons f fs)
    obtain d q now where f: "f = (d, q, now)" by (cases f) auto
    let ?tr1 = "snd (pinch tr i w d q now)"
    have ok1: "slots_ok ?tr1" using Cons.prems by (rule pinch_slots_ok)
    have g: "get_machine ?tr1 i w = snd (pinch_machine_step (get_machine tr i w) d q now)"
      using Cons.prems assms(2) by (rule pinch_get_same)
    from Cons.IH [OF ok1] show ?case
      by (simp add: f case_prod_beta pinch_fst g)
  qed
  then show "fst (run_pinch tr i w fs) = run_clicks (get_machine tr i w) fs"
    and "get_machine (snd (run_pinch tr i w fs)) i w = run_machine (get_machine tr i w) fs"
    by blast+
qed

text \<open>
  \<open>_process\<close> calls \<open>_pinch\<close> for the two pairs of its slot, with the filtered distances
  and with the eligibility \<open>ring_ext or pinky_ext\<close>; \<open>click_left\<close> and \<open>click_right\<close> are
  what the two calls return, the machines of the slot are what they leave, and the
  machines of the other slot are not touched.
\<close>

lemma process_pinch_link:
  assumes "process tr lm i t = Inr (hs, tr')" and "slots_ok tr"
  shows "\<exists>di dm fdi fdm.
           filter_call (filt_d_idx tr ! i) (dist3d (lm ! 8) (lm ! 4) / hand_size lm) t
             = Inr (Some di, fdi) \<and>
           filter_call (filt_d_mid tr ! i) (dist3d (lm ! 12) (lm ! 4) / hand_size lm) t
             = Inr (Some dm, fdm) \<and>
           click_left hs
             = fst (pinch tr i ''idx'' di (ext_flags lm ! 2 \<or> ext_flags lm ! 3) t) \<and>
           click_right hs
             = fst (pinch tr i ''mid'' dm (ext_flags lm ! 2 \<or> ext_flags lm ! 3) t) \<and>
           get_machine tr' i ''idx''
             = get_machine (snd (pinch tr i ''idx'' di (ext_flags lm ! 2 \<or> ext_flags lm ! 3) t))
                 i ''idx'' \<and>
           get_machine tr' i ''mid''
             = get_machine (snd (pinch tr i ''mid'' dm (ext_flags lm ! 2 \<or> ext_flags lm ! 3) t))
                 i ''mid'' \<and>
           (\<forall>j w. j \<noteq> i \<longrightarrow> get_machine tr' j w = get_machine tr j w)"
proof (rule process_pinch_fields [OF assms(1)])
  let ?q = "ext_flags lm ! 2 \<or> ext_flags lm ! 3"
  fix di fdi dm fdm
  assume f: "filter_call (filt_d_idx tr ! i) (dist3d (lm ! 8) (lm ! 4) / hand_size lm) t
          = Inr (Some di, fdi)"
       "filter_call (filt_d_mid tr ! i) (dist3d (lm ! 12) (lm ! 4) / hand_size lm) t
          = Inr (Some dm, fdm)"
    and fd: "filt_d_idx tr' = (filt_d_idx tr)[i := fdi]"
       "filt_d_mid tr' = (filt_d_mid tr)[i := fdm]"
    and cl: "click_left hs = fst (pinch_machine_step (get_machine tr i ''idx'') di ?q t)"
    and cr: "click_right hs = fst (pinch_machine_step (get_machine tr i ''mid'') dm ?q t)"
    and gi: "slots_ok tr \<Longrightarrow>
       get_machine tr' i ''idx'' = snd (pinch_machine_step (get_machine tr i ''idx'') di ?q t)"
    and gm: "slots_ok tr \<Longrightarrow>
       get_machine tr' i ''mid'' = snd (pinch_machine_step (get_machine tr i ''mid'') dm ?q t)"
    and ot: "\<And>j w. j \<noteq> i \<Longrightarrow> get_machine tr' j w = get_machine tr j w"
  have i: "i < 2" by (rule process_poses(1) [OF assms(1)])
  have 1: "click_left hs = fst (pinch tr i ''idx'' di ?q t)"
    using cl by (simp add: pinch_fst)
  have 2: "click_right hs = fst (pinch tr i ''mid'' dm ?q t)"
    using cr by (simp add: pinch_fst)
  have 3: "get_machine tr' i ''idx'' = get_machine (snd (pinch tr i ''idx'' di ?q t)) i ''idx''"
    using gi [OF assms(2)] pinch_get_same [OF assms(2) i, of "''idx''" di ?q t] by simp
  have 4: "get_machine tr' i ''mid'' = get_machine (snd (pinch tr i ''mid'' dm ?q t)) i ''mid''"
    using gm [OF assms(2)] pinch_get_same [OF assms(2) i, of "''mid''" dm ?q t] by simp
  from f 1 2 3 4 ot show ?thesis by blast
qed

lemma get_machine_idx:
  "get_machine tr i ''idx'' =
     \<lparr>pm_state = idx_state tr ! i, pm_count = idx_count tr ! i,
      pm_exit = idx_exit tr ! i, pm_last = last_lclick tr ! i\<rparr>"
  by (simp add: get_machine_def)

lemma get_machine_mid:
  "get_machine tr i ''mid'' =
     \<lparr>pm_state = mid_state tr ! i, pm_count = mid_count tr ! i,
      pm_exit = mid_exit tr ! i, pm_last = last_rclick tr ! i\<rparr>"
  by (simp add: get_machine_def)

lemma HandTracker_init_slots: "slots_ok (HandTracker_init t_c)"
  using HandTracker_init_ok [of t_c] by (simp add: tracker_ok_def)

lemmas pinch_eval =
  pinch_def pinch_machine_step_def put_machine_def get_machine_def tracker_consts Let_def
  HandTracker_init_def

text \<open>
  Claim C1, as stated, at the boundary of the cooldown: on a fresh tracker whose first
  frame comes at clock value 0.45, exactly 0.45 seconds have elapsed since the click time
  0.0 that the constructor stores, the distance is below 0.28 and the pinch is eligible,
  yet the qualifying counter is not incremented: the code compares with \<open>>\<close>.
\<close>

theorem pinch_cooldown_boundary_counterexample:
  "pm_state machine_init = Open \<and>
   (0.1::real) < 0.28 \<and> (0.45::real) - pm_last machine_init \<ge> 0.45 \<and>
   pm_count (snd (pinch_machine_step machine_init 0.1 True 0.45)) \<noteq> pm_count machine_init + 1 \<and>
   get_machine (HandTracker_init 0) 0 ''idx'' = machine_init \<and>
   idx_count (snd (pinch (HandTracker_init 0) 0 ''idx'' 0.1 True 0.45)) ! 0 = 0"
  by (simp add: pinch_def pinch_machine_step_def tracker_consts Let_def machine_init_def
      HandTracker_init_def get_machine_def put_machine_def)

text \<open>
  Claim C1, amended (the cooldown is strict: more than 0.45 seconds since the last click).
  Let \<open>tr\<close> be a tracker whose lists have their two entries, \<open>i\<close> a slot, \<open>m\<close> the machine
  that the tracker holds for slot \<open>i\<close> and pair \<open>w\<close> (state, qualifying counter, exit
  counter and click time: for the pair \<open>"idx"\<close> the entries of \<open>_idx_state\<close>,
  \<open>_idx_count\<close>, \<open>_idx_exit\<close> and \<open>_last_lclick\<close>, for the pair \<open>"mid"\<close> those of
  \<open>_mid_state\<close>, \<open>_mid_count\<close>, \<open>_mid_exit\<close> and \<open>_last_rclick\<close>), and \<open>r\<close> the result of
  the call \<open>_pinch(i, w, d, q, now)\<close> on \<open>tr\<close>: the click and the tracker it leaves.

  When \<open>m\<close> is open, the call increments the qualifying counter of the pair exactly when
  the distance is below 0.28, the pinch is eligible and more than 0.45 seconds have passed
  since the last click of the pair, and resets it to 0 otherwise; the call on which the
  counter reaches 4 stores \<open>Pinched\<close>, resets the counter, stamps the click time and
  returns a click, and no other call does. A call on a pinched machine returns no click
  and leaves the counter and the click time as they were. The call touches no machine of
  the other pair or the other slot. From an open machine with counter 0, three qualifying
  calls return no click, and the fourth returns a click exactly when it qualifies too.
  In \<open>_process\<close>, \<open>click_left\<close> and \<open>click_right\<close> are the clicks of the calls for the
  pairs \<open>"idx"\<close> and \<open>"mid"\<close> of the slot, on the filtered distances and with eligibility
  \<open>ring_ext or pinky_ext\<close>, and the machines of the slot afterwards are those the calls
  leave.
\<close>

theorem pinch_open_debounce:
  assumes "slots_ok tr" and "i < 2"
    and "m = get_machine tr i w" and "r = pinch tr i w d q now"
  shows "(w = ''idx'' \<longrightarrow>
            m = \<lparr>pm_state = idx_state tr ! i, pm_count = idx_count tr ! i,
                 pm_exit = idx_exit tr ! i, pm_last = last_lclick tr ! i\<rparr>) \<and>
         (w = ''mid'' \<longrightarrow>
            m = \<lparr>pm_state = mid_state tr ! i, pm_count = mid_count tr ! i,
                 pm_exit = mid_exit tr ! i, pm_last = last_rclick tr ! i\<rparr>) \<and>
         (pm_state m = Open \<longrightarrow>
            (fst r, get_machine (snd r) i w) =
              (if d < 0.28 \<and> q \<and> now - pm_last m > 0.45
               then (if 4 \<le> pm_count m + 1
                     then (True, m\<lparr>pm_state := Pinched, pm_count := 0, pm_last := now\<rparr>)
                     else (False, m\<lparr>pm_count := pm_count m + 1\<rparr>))
               else (False, m\<lparr>pm_count := 0\<rparr>))) \<and>
         (pm_state m = Pinched \<longrightarrow>
            \<not> fst r \<and> pm_count (get_machine (snd r) i w) = pm_count m \<and>
            pm_last (get_machine (snd r) i w) = pm_last m) \<and>
         fst r = (pm_state m = Open \<and> d < 0.28 \<and> q \<and> now - pm_last m > 0.45 \<and>
                  4 \<le> pm_count m + 1) \<and>
         (\<forall>j w'. j \<noteq> i \<or> (w' = ''idx'') \<noteq> (w = ''idx'') \<longrightarrow>
            get_machine (snd r) j w' = get_machine tr j w') \<and>
         (pm_state m = Open \<and> pm_count m = 0 \<and>
          (d1 < 0.28 \<and> q1 \<and> n1 - pm_last m > 0.45) \<and>
          (d2 < 0.28 \<and> q2 \<and> n2 - pm_last m > 0.45) \<and>
          (d3 < 0.28 \<and> q3 \<and> n3 - pm_last m > 0.45) \<longrightarrow>
          fst (run_pinch tr i w [(d1, q1, n1), (d2, q2, n2), (d3, q3, n3), (d4, q4, n4)]) =
            [False, False, False, d4 < 0.28 \<and> q4 \<and> n4 - pm_last m > 0.45]) \<and>
         (process tr lm i t = Inr (hs, tr') \<longrightarrow>
            (\<exists>di dm fdi fdm.
               filter_call (filt_d_idx tr ! i) (dist3d (lm ! 8) (lm ! 4) / hand_size lm) t
                 = Inr (Some di, fdi) \<and>
               filter_call (filt_d_mid tr ! i) (dist3d (lm ! 12) (lm ! 4) / hand_size lm) t
                 = Inr (Some dm, fdm) \<and>
               click_left hs
                 = fst (pinch tr i ''idx'' di (ext_flags lm ! 2 \<or> ext_flags lm ! 3) t) \<and>
               click_right hs
                 = fst (pinch tr i ''mid'' dm (ext_flags lm ! 2 \<or> ext_flags lm ! 3) t) \<and>
               get_machine tr' i ''idx''
                 = get_machine
                     (snd (pinch tr i ''idx'' di (ext_flags lm ! 2 \<or> ext_flags lm ! 3) t))
                     i ''idx'' \<and>
               get_machine tr' i ''mid''
                 = get_machine
                     (snd (pinch tr i ''mid'' dm (ext_flags lm ! 2 \<or> ext_flags lm ! 3) t))
                     i ''mid'' \<and>
               (\<forall>j w. j \<noteq> i \<longrightarrow> get_machine tr' j w = get_machine tr j w)))"
proof -
  have pr: "(fst r, get_machine (snd r) i w) = pinch_machine_step m d q now"
    unfolding assms(3,4) using assms(1,2) by (rule pinch_pair)
  have A: "w = ''idx'' \<longrightarrow>
            m = \<lparr>pm_state = idx_state tr ! i, pm_count = idx_count tr ! i,
                 pm_exit = idx_exit tr ! i, pm_last = last_lclick tr ! i\<rparr>"
    unfolding assms(3) by (simp add: get_machine_idx)
  have B: "w = ''mid'' \<longrightarrow>
            m = \<lparr>pm_state = mid_state tr ! i, pm_count = mid_count tr ! i,
                 pm_exit = mid_exit tr ! i, pm_last = last_rclick tr ! i\<rparr>"
    unfolding assms(3) by (simp add: get_machine_mid)
  have C: "pm_state m = Open \<longrightarrow>
            (fst r, get_machine (snd r) i w) =
              (if d < 0.28 \<and> q \<and> now - pm_last m > 0.45
               then (if 4 \<le> pm_count m + 1
                     then (True, m\<lparr>pm_state := Pinched, pm_count := 0, pm_last := now\<rparr>)
                     else (False, m\<lparr>pm_count := pm_count m + 1\<rparr>))
               else (False, m\<lparr>pm_count := 0\<rparr>))"
    unfolding pr using open_step_ge [of m d q now] by blast
  have D: "pm_state m = Pinched \<longrightarrow>
            \<not> fst r \<and> pm_count (get_machine (snd r) i w) = pm_count m \<and>
            pm_last (get_machine (snd r) i w) = pm_last m"
  proof
    assume p: "pm_state m = Pinched"
    from pr have "fst r = fst (pinch_machine_step m d q now)"
      and "get_machine (snd r) i w = snd (pinch_machine_step m d q now)"
      by (simp_all add: prod_eq_iff)
    then show "\<not> fst r \<and> pm_count (get_machine (snd r) i w) = pm_count m \<and>
            pm_last (get_machine (snd r) i w) = pm_last m"
      unfolding pinched_step_ge [OF p] by simp
  qed
  have E: "fst r = (pm_state m = Open \<and> d < 0.28 \<and> q \<and> now - pm_last m > 0.45 \<and>
                  4 \<le> pm_count m + 1)"
  proof (cases "pm_state m")
    case Open
    from pr have "fst r = fst (pinch_machine_step m d q now)" by (simp add: prod_eq_iff)
    then show ?thesis unfolding open_step_ge [OF Open] using Open by (auto split: if_splits)
  next
    case Pinched
    with D show ?thesis by simp
  qed
  have F: "\<forall>j w'. j \<noteq> i \<or> (w' = ''idx'') \<noteq> (w = ''idx'') \<longrightarrow>
            get_machine (snd r) j w' = get_machine tr j w'"
    unfolding assms(4) using pinch_others by blast
  have G: "pm_state m = Open \<and> pm_count m = 0 \<and>
          (d1 < 0.28 \<and> q1 \<and> n1 - pm_last m > 0.45) \<and>
          (d2 < 0.28 \<and> q2 \<and> n2 - pm_last m > 0.45) \<and>
          (d3 < 0.28 \<and> q3 \<and> n3 - pm_last m > 0.45) \<longrightarrow>
          fst (run_pinch tr i w [(d1, q1, n1), (d2, q2, n2), (d3, q3, n3), (d4, q4, n4)]) =
            [False, False, False, d4 < 0.28 \<and> q4 \<and> n4 - pm_last m > 0.45]"
    unfolding run_pinch_machine(1) [OF assms(1,2)] assms(3) [symmetric]
    using open_four_frames [of m d1 q1 n1 d2 q2 n2 d3 q3 n3 d4 q4 n4] by blast
  have H: "process tr lm i t = Inr (hs, tr') \<longrightarrow>
            (\<exists>di dm fdi fdm.
               filter_call (filt_d_idx tr ! i) (dist3d (lm ! 8) (lm ! 4) / hand_size lm) t
                 = Inr (Some di, fdi) \<and>
               filter_call (filt_d_mid tr ! i) (dist3d (lm ! 12) (lm ! 4) / hand_size lm) t
                 = Inr (Some dm, fdm) \<and>
               click_left hs
                 = fst (pinch tr i ''idx'' di (ext_flags lm ! 2 \<or> ext_flags lm ! 3) t) \<and>
               click_right hs
                 = fst (pinch tr i ''mid'' dm (ext_flags lm ! 2 \<or> ext_flags lm ! 3) t) \<and>
               get_machine tr' i ''idx''
                 = get_machine
                     (snd (pinch tr i ''idx'' di (ext_flags lm ! 2 \<or> ext_flags lm ! 3) t))
                     i ''idx'' \<and>
               get_machine tr' i ''mid''
                 = get_machine
                     (snd (pinch tr i ''mid'' dm (ext_flags lm ! 2 \<or> ext_flags lm ! 3) t))
                     i ''mid'' \<and>
               (\<forall>j w. j \<noteq> i \<longrightarrow> get_machine tr' j w = get_machine tr j w))"
    using process_pinch_link [of tr lm i t hs tr'] assms(1) by blast
  from A B C D E F G H show ?thesis by (intro conjI)
qed

theorem pinch_open_debounce_witness:
  "slots_ok (HandTracker_init 0) \<and>
   \<not> fst (pinch (HandTracker_init 0) 0 ''idx'' 0.2 True 1) \<and>
   idx_count (snd (pinch (HandTracker_init 0) 0 ''idx'' 0.2 True 1)) = [1, 0] \<and>
   mid_count (snd (pinch (HandTracker_init 0) 0 ''idx'' 0.2 True 1)) = [0, 0] \<and>
   fst (run_pinch (HandTracker_init 0) 0 ''idx''
          [(0.2, True, 1), (0.15, True, 1.1), (0.1, True, 1.2), (0.1, True, 1.3)])
     = [False, False, False, True] \<and>
   idx_state (snd (run_pinch (HandTracker_init 0) 0 ''idx''
          [(0.2, True, 1), (0.15, True, 1.1), (0.1, True, 1.2), (0.1, True, 1.3)]))
     = [Pinched, Open] \<and>
   idx_count (snd (run_pinch (HandTracker_init 0) 0 ''idx''
          [(0.2, True, 1), (0.15, True, 1.1), (0.1, True, 1.2), (0.1, True, 1.3)]))
     = [0, 0] \<and>
   last_lclick (snd (run_pinch (HandTracker_init 0) 0 ''idx''
          [(0.2, True, 1), (0.15, True, 1.1), (0.1, True, 1.2), (0.1, True, 1.3)]))
     = [1.3, 0] \<and>
   last_rclick (snd (run_pinch (HandTracker_init 0) 0 ''idx''
          [(0.2, True, 1), (0.15, True, 1.1), (0.1, True, 1.2), (0.1, True, 1.3)]))
     = [0, 0] \<and>
   fst (run_pinch (HandTracker_init 0) 0 ''idx''
          [(0.2, True, 1), (0.15, True, 1.1), (0.1, True, 1.2), (0.1, False, 1.3)])
     = [False, False, False, False] \<and>
   \<not> isl (process (HandTracker_init 0) (axis_hand 1 0.2) 0 1) \<and>
   \<not> click_left (fst (projr (process (HandTracker_init 0) (axis_hand 1 0.2) 0 1))) \<and>
   idx_count (snd (projr (process (HandTracker_init 0) (axis_hand 1 0.2) 0 1))) ! 0 = 1"
proof -
  let ?tr = "HandTracker_init 0"
  let ?fs = "[(0.2, True, 1), (0.15, True, 1.1), (0.1, True, 1.2), (0.1, True, 1.3)]
               :: (real \<times> bool \<times> real) list"
  have ok: "slots_ok ?tr" by (rule HandTracker_init_slots)
  have m0: "get_machine ?tr 0 ''idx''
              = \<lparr>pm_state = Open, pm_count = 0, pm_exit = 0, pm_last = 0\<rparr>"
    by (simp add: get_machine_def HandTracker_init_def)
  obtain hs tr' where p: "process ?tr (axis_hand 1 0.2) 0 1 = Inr (hs, tr')"
    using HandTracker_init_ok [of 0]
    by (rule process_total [where i = 0 and lm = "axis_hand 1 0.2"])
      (simp_all add: axis_hand_length)
  have i2: "(0::nat) < 2" by simp
  note t = pinch_open_debounce [OF ok i2 refl refl, where w = "''idx''"
      and d = "0.2" and q = True and now = 1
      and ?d1.0 = "0.2" and ?q1.0 = True and ?n1.0 = 1
      and ?d2.0 = "0.15" and ?q2.0 = True and ?n2.0 = "1.1"
      and ?d3.0 = "0.1" and ?q3.0 = True and ?n3.0 = "1.2"
      and ?d4.0 = "0.1" and ?q4.0 = True and ?n4.0 = "1.3"
      and lm = "axis_hand 1 0.2" and t = 1 and hs = hs and tr' = tr']
  from t have "fst (pinch ?tr 0 ''idx'' 0.2 True 1) =
      (pm_state (get_machine ?tr 0 ''idx'') = Open \<and> (0.2::real) < 0.28 \<and> True \<and>
       1 - pm_last (get_machine ?tr 0 ''idx'') > 0.45 \<and>
       4 \<le> pm_count (get_machine ?tr 0 ''idx'') + 1)"
    by blast
  then have a: "\<not> fst (pinch ?tr 0 ''idx'' 0.2 True 1)"
    by (simp add: m0)
  have b: "idx_count (snd (pinch ?tr 0 ''idx'' 0.2 True 1)) = [1, 0]"
    "mid_count (snd (pinch ?tr 0 ''idx'' 0.2 True 1)) = [0, 0]"
    by (simp_all add: pinch_eval)
  have "pm_state (get_machine ?tr 0 ''idx'') = Open \<and>
        pm_count (get_machine ?tr 0 ''idx'') = 0 \<and>
        ((0.2::real) < 0.28 \<and> True \<and> 1 - pm_last (get_machine ?tr 0 ''idx'') > 0.45) \<and>
        ((0.15::real) < 0.28 \<and> True \<and> 1.1 - pm_last (get_machine ?tr 0 ''idx'') > 0.45) \<and>
        ((0.1::real) < 0.28 \<and> True \<and> 1.2 - pm_last (get_machine ?tr 0 ''idx'') > 0.45)"
    by (simp add: m0)
  with t have "fst (run_pinch ?tr 0 ''idx'' ?fs) =
      [False, False, False,
       (0.1::real) < 0.28 \<and> True \<and> 1.3 - pm_last (get_machine ?tr 0 ''idx'') > 0.45]"
    by blast
  then have c: "fst (run_pinch ?tr 0 ''idx'' ?fs) = [False, False, False, True]"
    by (simp add: m0)
  have d: "idx_state (snd (run_pinch ?tr 0 ''idx'' ?fs)) = [Pinched, Open]"
    "idx_count (snd (run_pinch ?tr 0 ''idx'' ?fs)) = [0, 0]"
    "last_lclick (snd (run_pinch ?tr 0 ''idx'' ?fs)) = [1.3, 0]"
    "last_rclick (snd (run_pinch ?tr 0 ''idx'' ?fs)) = [0, 0]"
    by (simp_all add: pinch_eval)
  have e: "fst (run_pinch ?tr 0 ''idx''
             [(0.2, True, 1), (0.15, True, 1.1), (0.1, True, 1.2), (0.1, False, 1.3)])
           = [False, False, False, False]"
    by (simp add: pinch_eval)
  from t p obtain di dm fdi fdm where
    f: "filter_call (filt_d_idx ?tr ! 0)
          (dist3d (axis_hand 1 0.2 ! 8) (axis_hand 1 0.2 ! 4) / hand_size (axis_hand 1 0.2)) 1
          = Inr (Some di, fdi)"
    and cl: "click_left hs
          = fst (pinch ?tr 0 ''idx'' di
                   (ext_flags (axis_hand 1 0.2) ! 2 \<or> ext_flags (axis_hand 1 0.2) ! 3) 1)"
    and g: "get_machine tr' 0 ''idx''
          = get_machine
              (snd (pinch ?tr 0 ''idx'' di
                      (ext_flags (axis_hand 1 0.2) ! 2 \<or> ext_flags (axis_hand 1 0.2) ! 3) 1))
              0 ''idx''"
    by blast
  have "t_prev (filt_d_idx ?tr ! 0) = None"
    by (simp add: HandTracker_init_def OneEuroFilter_init_def)
  from f filter_call_fresh [OF this] have di: "di = 0.2"
    by (simp add: axis_hand_dist axis_hand_size)
  have q: "ext_flags (axis_hand 1 0.2) ! 2 \<or> ext_flags (axis_hand 1 0.2) ! 3"
    by (simp add: axis_hand_ext)
  have h: "\<not> click_left hs"
    using cl a q unfolding di by simp
  have "pm_count (get_machine tr' 0 ''idx'') = 1"
    using g q unfolding di by (simp add: pinch_eval)
  then have k: "idx_count tr' ! 0 = 1" by (simp add: get_machine_def)
  from ok a b c d e p h k show ?thesis by simp
qed

text \<open>
  Claim C4. With \<open>tr\<close>, \<open>i\<close>, \<open>w\<close>, \<open>m\<close> and \<open>r\<close> as for claim C1: when the machine \<open>m\<close> of
  the pair is pinched, the call \<open>_pinch(i, w, d, q, now)\<close> returns no click, increments
  the exit counter of the pair when the distance exceeds 0.50 and resets it to 0
  otherwise; the call on which the exit counter reaches 3 stores \<open>Open\<close> and resets the
  exit counter. The call touches neither the qualifying counter nor the click time of
  the pair, nor any machine of the other pair or the other slot. From a pinched machine
  with exit counter 0 the machine is still pinched after one and after two calls, it is
  open after three calls exactly when all three distances exceed 0.50, and none of the
  three calls returns a click. In \<open>_process\<close>, the two calls are made on the filtered
  distances of the frame, and the machines of the slot afterwards are those they leave.
\<close>

theorem pinch_pinched_hysteresis:
  assumes "slots_ok tr" and "i < 2"
    and "m = get_machine tr i w" and "r = pinch tr i w d q now"
  shows "(w = ''idx'' \<longrightarrow>
            m = \<lparr>pm_state = idx_state tr ! i, pm_count = idx_count tr ! i,
                 pm_exit = idx_exit tr ! i, pm_last = last_lclick tr ! i\<rparr>) \<and>
         (w = ''mid'' \<longrightarrow>
            m = \<lparr>pm_state = mid_state tr ! i, pm_count = mid_count tr ! i,
                 pm_exit = mid_exit tr ! i, pm_last = last_rclick tr ! i\<rparr>) \<and>
         (pm_state m = Pinched \<longrightarrow>
            (fst r, get_machine (snd r) i w) =
              (if d > 0.5
               then (if 3 \<le> pm_exit m + 1
                     then (False, m\<lparr>pm_state := Open, pm_exit := 0\<rparr>)
                     else (False, m\<lparr>pm_exit := pm_exit m + 1\<rparr>))
               else (False, m\<lparr>pm_exit := 0\<rparr>))) \<and>
         (\<forall>j w'. j \<noteq> i \<or> (w' = ''idx'') \<noteq> (w = ''idx'') \<longrightarrow>
            get_machine (snd r) j w' = get_machine tr j w') \<and>
         (pm_state m = Pinched \<and> pm_exit m = 0 \<longrightarrow>
            pm_state (get_machine (snd (run_pinch tr i w [(d1, q1, n1)])) i w) = Pinched \<and>
            pm_state (get_machine (snd (run_pinch tr i w [(d1, q1, n1), (d2, q2, n2)])) i w)
              = Pinched \<and>
            (pm_state (get_machine
                 (snd (run_pinch tr i w [(d1, q1, n1), (d2, q2, n2), (d3, q3, n3)])) i w) = Open
               \<longleftrightarrow> d1 > 0.5 \<and> d2 > 0.5 \<and> d3 > 0.5) \<and>
            fst (run_pinch tr i w [(d1, q1, n1), (d2, q2, n2), (d3, q3, n3)])
              = [False, False, False]) \<and>
         (process tr lm i t = Inr (hs, tr') \<longrightarrow>
            (\<exists>di dm fdi fdm.
               filter_call (filt_d_idx tr ! i) (dist3d (lm ! 8) (lm ! 4) / hand_size lm) t
                 = Inr (Some di, fdi) \<and>
               filter_call (filt_d_mid tr ! i) (dist3d (lm ! 12) (lm ! 4) / hand_size lm) t
                 = Inr (Some dm, fdm) \<and>
               click_left hs
                 = fst (pinch tr i ''idx'' di (ext_flags lm ! 2 \<or> ext_flags lm ! 3) t) \<and>
               click_right hs
                 = fst (pinch tr i ''mid'' dm (ext_flags lm ! 2 \<or> ext_flags lm ! 3) t) \<and>
               get_machine tr' i ''idx''
                 = get_machine
                     (snd (pinch tr i ''idx'' di (ext_flags lm ! 2 \<or> ext_flags lm ! 3) t))
                     i ''idx'' \<and>
               get_machine tr' i ''mid''
                 = get_machine
                     (snd (pinch tr i ''mid'' dm (ext_flags lm ! 2 \<or> ext_flags lm ! 3) t))
                     i ''mid'' \<and>
               (\<forall>j w. j \<noteq> i \<longrightarrow> get_machine tr' j w = get_machine tr j w)))"
proof -
  have pr: "(fst r, get_machine (snd r) i w) = pinch_machine_step m d q now"
    unfolding assms(3,4) using assms(1,2) by (rule pinch_pair)
  have A: "w = ''idx'' \<longrightarrow>
            m = \<lparr>pm_state = idx_state tr ! i, pm_count = idx_count tr ! i,
                 pm_exit = idx_exit tr ! i, pm_last = last_lclick tr ! i\<rparr>"
    unfolding assms(3) by (simp add: get_machine_idx)
  have B: "w = ''mid'' \<longrightarrow>
            m = \<lparr>pm_state = mid_state tr ! i, pm_count = mid_count tr ! i,
                 pm_exit = mid_exit tr ! i, pm_last = last_rclick tr ! i\<rparr>"
    unfolding assms(3) by (simp add: get_machine_mid)
  have C: "pm_state m = Pinched \<longrightarrow>
            (fst r, get_machine (snd r) i w) =
              (if d > 0.5
               then (if 3 \<le> pm_exit m + 1
                     then (False, m\<lparr>pm_state := Open, pm_exit := 0\<rparr>)
                     else (False, m\<lparr>pm_exit := pm_exit m + 1\<rparr>))
               else (False, m\<lparr>pm_exit := 0\<rparr>))"
    unfolding pr using pinched_step_ge [of m d q now] by blast
  have D: "\<forall>j w'. j \<noteq> i \<or> (w' = ''idx'') \<noteq> (w = ''idx'') \<longrightarrow>
            get_machine (snd r) j w' = get_machine tr j w'"
    unfolding assms(4) using pinch_others by blast
  have E: "pm_state m = Pinched \<and> pm_exit m = 0 \<longrightarrow>
            pm_state (get_machine (snd (run_pinch tr i w [(d1, q1, n1)])) i w) = Pinched \<and>
            pm_state (get_machine (snd (run_pinch tr i w [(d1, q1, n1), (d2, q2, n2)])) i w)
              = Pinched \<and>
            (pm_state (get_machine
                 (snd (run_pinch tr i w [(d1, q1, n1), (d2, q2, n2), (d3, q3, n3)])) i w) = Open
               \<longleftrightarrow> d1 > 0.5 \<and> d2 > 0.5 \<and> d3 > 0.5) \<and>
            fst (run_pinch tr i w [(d1, q1, n1), (d2, q2, n2), (d3, q3, n3)])
              = [False, False, False]"
    unfolding run_pinch_machine [OF assms(1,2)] assms(3) [symmetric]
    using pinched_three_frames [of m d1 q1 n1 d2 q2 n2 d3 q3 n3] by blast
  have F: "process tr lm i t = Inr (hs, tr') \<longrightarrow>
            (\<exists>di dm fdi fdm.
               filter_call (filt_d_idx tr ! i) (dist3d (lm ! 8) (lm ! 4) / hand_size lm) t
                 = Inr (Some di, fdi) \<and>
               filter_call (filt_d_mid tr ! i) (dist3d (lm ! 12) (lm ! 4) / hand_size lm) t
                 = Inr (Some dm, fdm) \<and>
               click_left hs
                 = fst (pinch tr i ''idx'' di (ext_flags lm ! 2 \<or> ext_flags lm ! 3) t) \<and>
               click_right hs
                 = fst (pinch tr i ''mid'' dm (ext_flags lm ! 2 \<or> ext_flags lm ! 3) t) \<and>
               get_machine tr' i ''idx''
                 = get_machine
                     (snd (pinch tr i ''idx'' di (ext_flags lm ! 2 \<or> ext_flags lm ! 3) t))
                     i ''idx'' \<and>
               get_machine tr' i ''mid''
                 = get_machine
                     (snd (pinch tr i ''mid'' dm (ext_flags lm ! 2 \<or> ext_flags lm ! 3) t))
                     i ''mid'' \<and>
               (\<forall>j w. j \<noteq> i \<longrightarrow> get_machine tr' j w = get_machine tr j w))"
    using process_pinch_link [of tr lm i t hs tr'] assms(1) by blast
  from A B C D E F show ?thesis by (intro conjI)
qed

theorem pinch_pinched_hysteresis_witness:
  "slots_ok ((HandTracker_init 0)\<lparr>idx_state := [Pinched, Open], last_lclick := [1.3, 0]\<rparr>) \<and>
   snd (run_pinch (HandTracker_init 0) 0 ''idx''
          [(0.2, True, 1), (0.15, True, 1.1), (0.1, True, 1.2), (0.1, True, 1.3)])
     = (HandTracker_init 0)\<lparr>idx_state := [Pinched, Open], last_lclick := [1.3, 0]\<rparr> \<and>
   \<not> fst (pinch ((HandTracker_init 0)\<lparr>idx_state := [Pinched, Open], last_lclick := [1.3, 0]\<rparr>)
            0 ''idx'' 0.6 True 2) \<and>
   idx_exit (snd (pinch
       ((HandTracker_init 0)\<lparr>idx_state := [Pinched, Open], last_lclick := [1.3, 0]\<rparr>)
       0 ''idx'' 0.6 True 2)) = [1, 0] \<and>
   mid_exit (snd (pinch
       ((HandTracker_init 0)\<lparr>idx_state := [Pinched, Open], last_lclick := [1.3, 0]\<rparr>)
       0 ''idx'' 0.6 True 2)) = [0, 0] \<and>
   idx_state (snd (run_pinch
       ((HandTracker_init 0)\<lparr>idx_state := [Pinched, Open], last_lclick := [1.3, 0]\<rparr>)
       0 ''idx'' [(0.6, True, 2), (0.7, True, 2.1), (0.8, False, 2.2)])) = [Open, Open] \<and>
   idx_state (snd (run_pinch
       ((HandTracker_init 0)\<lparr>idx_state := [Pinched, Open], last_lclick := [1.3, 0]\<rparr>)
       0 ''idx'' [(0.6, True, 2), (0.4, True, 2.1), (0.8, False, 2.2)])) = [Pinched, Open] \<and>
   idx_exit (snd (run_pinch
       ((HandTracker_init 0)\<lparr>idx_state := [Pinched, Open], last_lclick := [1.3, 0]\<rparr>)
       0 ''idx'' [(0.6, True, 2), (0.4, True, 2.1), (0.8, False, 2.2)])) = [1, 0] \<and>
   fst (run_pinch
       ((HandTracker_init 0)\<lparr>idx_state := [Pinched, Open], last_lclick := [1.3, 0]\<rparr>)
       0 ''idx'' [(0.6, True, 2), (0.7, True, 2.1), (0.8, False, 2.2)]) = [False, False, False]"
proof -
  let ?tr = "(HandTracker_init 0)\<lparr>idx_state := [Pinched, Open], last_lclick := [1.3, 0]\<rparr>"
  have ok: "slots_ok ?tr"
    using HandTracker_init_slots [of 0] by (simp add: slots_ok_def)
  have reach: "snd (run_pinch (HandTracker_init 0) 0 ''idx''
          [(0.2, True, 1), (0.15, True, 1.1), (0.1, True, 1.2), (0.1, True, 1.3)]) = ?tr"
    by (simp add: pinch_eval)
  have m0: "get_machine ?tr 0 ''idx''
              = \<lparr>pm_state = Pinched, pm_count = 0, pm_exit = 0, pm_last = 1.3\<rparr>"
    by (simp add: get_machine_def HandTracker_init_def)
  have i2: "(0::nat) < 2" by simp
  have pm: "pm_state (get_machine ?tr 0 ''idx'') = Pinched \<and>
            pm_exit (get_machine ?tr 0 ''idx'') = 0"
    by (simp add: m0)
  note t = pinch_pinched_hysteresis [OF ok i2 refl refl, where w = "''idx''"
      and d = "0.6" and q = True and now = 2
      and ?d1.0 = "0.6" and ?q1.0 = True and ?n1.0 = 2
      and ?q2.0 = True and ?n2.0 = "2.1"
      and ?d3.0 = "0.8" and ?q3.0 = False and ?n3.0 = "2.2"]
  from t [where ?d2.0 = "0.7"] pm
  have "(fst (pinch ?tr 0 ''idx'' 0.6 True 2),
         get_machine (snd (pinch ?tr 0 ''idx'' 0.6 True 2)) 0 ''idx'') =
        (if (0.6::real) > 0.5
         then (if 3 \<le> pm_exit (get_machine ?tr 0 ''idx'') + 1
               then (False, (get_machine ?tr 0 ''idx'')\<lparr>pm_state := Open, pm_exit := 0\<rparr>)
               else (False, (get_machine ?tr 0 ''idx'')
                       \<lparr>pm_exit := pm_exit (get_machine ?tr 0 ''idx'') + 1\<rparr>))
         else (False, (get_machine ?tr 0 ''idx'')\<lparr>pm_exit := 0\<rparr>))"
    by blast
  then have a: "\<not> fst (pinch ?tr 0 ''idx'' 0.6 True 2)"
    by (simp add: m0)
  have b: "idx_exit (snd (pinch ?tr 0 ''idx'' 0.6 True 2)) = [1, 0]"
    "mid_exit (snd (pinch ?tr 0 ''idx'' 0.6 True 2)) = [0, 0]"
    by (simp_all add: pinch_eval)
  from t [where ?d2.0 = "0.7"] pm
  have "pm_state (get_machine (snd (run_pinch ?tr 0 ''idx''
            [(0.6, True, 2), (0.7, True, 2.1), (0.8, False, 2.2)])) 0 ''idx'') = Open
          \<longleftrightarrow> (0.6::real) > 0.5 \<and> (0.7::real) > 0.5 \<and> (0.8::real) > 0.5"
    and e: "fst (run_pinch ?tr 0 ''idx''
            [(0.6, True, 2), (0.7, True, 2.1), (0.8, False, 2.2)]) = [False, False, False]"
    by blast+
  then have "pm_state (get_machine (snd (run_pinch ?tr 0 ''idx''
            [(0.6, True, 2), (0.7, True, 2.1), (0.8, False, 2.2)])) 0 ''idx'') = Open"
    by simp
  then have c: "idx_state (snd (run_pinch ?tr 0 ''idx''
            [(0.6, True, 2), (0.7, True, 2.1), (0.8, False, 2.2)])) ! 0 = Open"
    by (simp add: get_machine_def)
  have c': "idx_state (snd (run_pinch ?tr 0 ''idx''
            [(0.6, True, 2), (0.7, True, 2.1), (0.8, False, 2.2)])) = [Open, Open]"
    by (simp add: pinch_eval)
  have d: "idx_state (snd (run_pinch ?tr 0 ''idx''
            [(0.6, True, 2), (0.4, True, 2.1), (0.8, False, 2.2)])) = [Pinched, Open]"
    "idx_exit (snd (run_pinch ?tr 0 ''idx''
            [(0.6, True, 2), (0.4, True, 2.1), (0.8, False, 2.2)])) = [1, 0]"
    by (simp_all add: pinch_eval)
  from ok reach a b c' d e show ?thesis by simp
qed

section \<open>The hand scale\<close>

lemma process_distance_inputs:
  assumes "process tr lm i t = Inr (hs, tr')"
  shows "\<exists>di dm fdi fdm.
           filter_call (filt_d_idx tr ! i) (dist3d (lm ! 8) (lm ! 4) / hand_size lm) t
             = Inr (Some di, fdi) \<and>
           filter_call (filt_d_mid tr ! i) (dist3d (lm ! 12) (lm ! 4) / hand_size lm) t
             = Inr (Some dm, fdm) \<and>
           filt_d_idx tr' = (filt_d_idx tr)[i := fdi] \<and>
           filt_d_mid tr' = (filt_d_mid tr)[i := fdm] \<and>
           click_left hs
             = fst (pinch tr i ''idx'' di (ext_flags lm ! 2 \<or> ext_flags lm ! 3) t) \<and>
           click_right hs
             = fst (pinch tr i ''mid'' dm (ext_flags lm ! 2 \<or> ext_flags lm ! 3) t)"
proof (rule process_pinch_fields [OF assms])
  let ?q = "ext_flags lm ! 2 \<or> ext_flags lm ! 3"
  fix di fdi dm fdm
  assume f: "filter_call (filt_d_idx tr ! i) (dist3d (lm ! 8) (lm ! 4) / hand_size lm) t
          = Inr (Some di, fdi)"
       "filter_call (filt_d_mid tr ! i) (dist3d (lm ! 12) (lm ! 4) / hand_size lm) t
          = Inr (Some dm, fdm)"
    and fd: "filt_d_idx tr' = (filt_d_idx tr)[i := fdi]"
       "filt_d_mid tr' = (filt_d_mid tr)[i := fdm]"
    and cl: "click_left hs = fst (pinch_machine_step (get_machine tr i ''idx'') di ?q t)"
    and cr: "click_right hs = fst (pinch_machine_step (get_machine tr i ''mid'') dm ?q t)"
  have 1: "click_left hs = fst (pinch tr i ''idx'' di ?q t)"
    using cl by (simp add: pinch_fst)
  have 2: "click_right hs = fst (pinch tr i ''mid'' dm ?q t)"
    using cr by (simp add: pinch_fst)
  from f fd 1 2 show ?thesis by blast
qed

text \<open>
  Claim C2, as stated, on a hand whose wrist and index MCP joint are 0.05 apart: the
  computed distance is below 0.1, yet the divisor is the distance 0.05 itself and not
  0.1. With the index fingertip 0.02 from the thumb tip, the first frame of a new tracker
  stores the normalized distance 0.02 / 0.05 = 0.4 in the filter of the slot, where a
  divisor of 0.1 would give 0.2.
\<close>

theorem hand_scale_floor_counterexample:
  "dist3d (axis_hand 0.05 0.02 ! 0) (axis_hand 0.05 0.02 ! 5) = 0.05 \<and>
   (0.05 :: real) < 0.1 \<and>
   hand_size (axis_hand 0.05 0.02) = 0.05 \<and>
   hand_size (axis_hand 0.05 0.02) \<noteq> 0.1 \<and>
   \<not> 0.1 \<le> hand_size (axis_hand 0.05 0.02) \<and>
   \<not> isl (process (HandTracker_init 0) (axis_hand 0.05 0.02) 0 1) \<and>
   x_prev (filt_d_idx (snd (projr (process (HandTracker_init 0) (axis_hand 0.05 0.02) 0 1))) ! 0)
     = Some 0.4"
proof -
  let ?h = "axis_hand 0.05 0.02"
  have d: "dist3d (?h ! 0) (?h ! 5) = 0.05"
    by (simp add: axis_hand_nth dist3d_pt)
  have s: "hand_size ?h = 0.05" by (simp add: axis_hand_size)
  obtain hs tr' where p: "process (HandTracker_init 0) ?h 0 1 = Inr (hs, tr')"
    using HandTracker_init_ok [of 0]
    by (rule process_total [where i = 0 and lm = ?h]) (simp_all add: axis_hand_length)
  from process_distance_inputs [OF p] obtain di fdi where
    f: "filter_call (filt_d_idx (HandTracker_init 0) ! 0)
          (dist3d (?h ! 8) (?h ! 4) / hand_size ?h) 1 = Inr (Some di, fdi)"
    and u: "filt_d_idx tr' = (filt_d_idx (HandTracker_init 0))[0 := fdi]"
    by blast
  have fr: "t_prev (filt_d_idx (HandTracker_init 0) ! 0) = None"
    by (simp add: HandTracker_init_def OneEuroFilter_init_def)
  have arg: "dist3d (?h ! 8) (?h ! 4) / hand_size ?h = 0.4"
    unfolding axis_hand_dist s by simp
  from f have "filter_call (filt_d_idx (HandTracker_init 0) ! 0) 0.4 1 = Inr (Some di, fdi)"
    unfolding arg .
  with filter_call_fresh [OF fr, of "0.4" 1] have "x_prev fdi = Some 0.4"
    by auto
  with u have x: "x_prev (filt_d_idx tr' ! 0) = Some 0.4"
    by (simp add: HandTracker_init_def)
  from d s p x show ?thesis by simp
qed

text \<open>
  Claim C2, amended. The hand scale that \<open>_process\<close> divides the two pinch distances by
  is guarded, not floored: it is 0.1 whenever the computed wrist-to-index-MCP distance is
  below 0.01, and the computed distance itself otherwise. So the divisor is always at
  least 0.01 (hence never 0, and the divisions raise nothing), and it is below 0.1 exactly
  when the computed distance lies between 0.01 and 0.1. In every frame that is processed
  without an exception, the values passed to the two distance filters of the slot are
  the two thumb distances divided by this hand scale.
\<close>

theorem hand_scale_guard:
  "hand_size lm =
     (if dist3d (lm ! 0) (lm ! 5) < 0.01 then 0.1 else dist3d (lm ! 0) (lm ! 5)) \<and>
   0.01 \<le> hand_size lm \<and> hand_size lm \<noteq> 0 \<and>
   (hand_size lm < 0.1 \<longleftrightarrow>
      0.01 \<le> dist3d (lm ! 0) (lm ! 5) \<and> dist3d (lm ! 0) (lm ! 5) < 0.1) \<and>
   (process tr lm i t = Inr (hs, tr') \<longrightarrow>
      (\<exists>di dm fdi fdm.
         filter_call (filt_d_idx tr ! i) (dist3d (lm ! 8) (lm ! 4) / hand_size lm) t
           = Inr (Some di, fdi) \<and>
         filter_call (filt_d_mid tr ! i) (dist3d (lm ! 12) (lm ! 4) / hand_size lm) t
           = Inr (Some dm, fdm) \<and>
         filt_d_idx tr' = (filt_d_idx tr)[i := fdi] \<and>
         filt_d_mid tr' = (filt_d_mid tr)[i := fdm] \<and>
         click_left hs
           = fst (pinch tr i ''idx'' di (ext_flags lm ! 2 \<or> ext_flags lm ! 3) t) \<and>
         click_right hs
           = fst (pinch tr i ''mid'' dm (ext_flags lm ! 2 \<or> ext_flags lm ! 3) t)))"
proof -
  have A: "hand_size lm =
     (if dist3d (lm ! 0) (lm ! 5) < 0.01 then 0.1 else dist3d (lm ! 0) (lm ! 5))"
    by (simp add: hand_size_def Let_def)
  have B: "0.01 \<le> hand_size lm" by (rule hand_size_floor)
  have C: "hand_size lm \<noteq> 0" using hand_size_pos [of lm] by simp
  have D: "hand_size lm < 0.1 \<longleftrightarrow>
      0.01 \<le> dist3d (lm ! 0) (lm ! 5) \<and> dist3d (lm ! 0) (lm ! 5) < 0.1"
    by (simp add: hand_size_def Let_def)
  have E: "process tr lm i t = Inr (hs, tr') \<longrightarrow>
      (\<exists>di dm fdi fdm.
         filter_call (filt_d_idx tr ! i) (dist3d (lm ! 8) (lm ! 4) / hand_size lm) t
           = Inr (Some di, fdi) \<and>
         filter_call (filt_d_mid tr ! i) (dist3d (lm ! 12) (lm ! 4) / hand_size lm) t
           = Inr (Some dm, fdm) \<and>
         filt_d_idx tr' = (filt_d_idx tr)[i := fdi] \<and>
         filt_d_mid tr' = (filt_d_mid tr)[i := fdm] \<and>
         click_left hs
           = fst (pinch tr i ''idx'' di (ext_flags lm ! 2 \<or> ext_flags lm ! 3) t) \<and>
         click_right hs
           = fst (pinch tr i ''mid'' dm (ext_flags lm ! 2 \<or> ext_flags lm ! 3) t))"
    using process_distance_inputs [of tr lm i t hs tr'] by blast
  from A B C D E show ?thesis by (intro conjI)
qed

theorem hand_scale_guard_witness:
  "hand_size (axis_hand 0.005 0.02) = 0.1 \<and>
   hand_size (axis_hand 0.05 0.02) = 0.05 \<and>
   hand_size (axis_hand 0.3 0.02) = 0.3 \<and>
   \<not> isl (process (HandTracker_init 0) (axis_hand 0.005 0.02) 0 1) \<and>
   x_prev (filt_d_idx (snd (projr (process (HandTracker_init 0) (axis_hand 0.005 0.02) 0 1)))
     ! 0) = Some 0.2"
proof -
  let ?h = "axis_hand 0.005 0.02"
  have d: "dist3d (?h ! 0) (?h ! 5) = 0.005"
    "dist3d (axis_hand 0.05 0.02 ! 0) (axis_hand 0.05 0.02 ! 5) = 0.05"
    "dist3d (axis_hand 0.3 0.02 ! 0) (axis_hand 0.3 0.02 ! 5) = 0.3"
    by (simp_all add: axis_hand_nth dist3d_pt)
  obtain hs tr' where p: "process (HandTracker_init 0) ?h 0 1 = Inr (hs, tr')"
    using HandTracker_init_ok [of 0]
    by (rule process_total [where i = 0 and lm = ?h]) (simp_all add: axis_hand_length)
  note t = hand_scale_guard [where lm = ?h and tr = "HandTracker_init 0" and i = 0 and t = 1
      and hs = hs and tr' = tr']
  from t have "hand_size ?h =
      (if dist3d (?h ! 0) (?h ! 5) < 0.01 then 0.1 else dist3d (?h ! 0) (?h ! 5))"
    by blast
  then have s: "hand_size ?h = 0.1" unfolding d by simp
  from hand_scale_guard [where lm = "axis_hand 0.05 0.02"]
  have "hand_size (axis_hand 0.05 0.02) =
      (if dist3d (axis_hand 0.05 0.02 ! 0) (axis_hand 0.05 0.02 ! 5) < 0.01 then 0.1
       else dist3d (axis_hand 0.05 0.02 ! 0) (axis_hand 0.05 0.02 ! 5))"
    by blast
  then have s2: "hand_size (axis_hand 0.05 0.02) = 0.05" unfolding d by simp
  from hand_scale_guard [where lm = "axis_hand 0.3 0.02"]
  have "hand_size (axis_hand 0.3 0.02) =
      (if dist3d (axis_hand 0.3 0.02 ! 0) (axis_hand 0.3 0.02 ! 5) < 0.01 then 0.1
       else dist3d (axis_hand 0.3 0.02 ! 0) (axis_hand 0.3 0.02 ! 5))"
    by blast
  then have s3: "hand_size (axis_hand 0.3 0.02) = 0.3" unfolding d by simp
  from t p obtain di fdi where
    f: "filter_call (filt_d_idx (HandTracker_init 0) ! 0)
          (dist3d (?h ! 8) (?h ! 4) / hand_size ?h) 1 = Inr (Some di, fdi)"
    and u: "filt_d_idx tr' = (filt_d_idx (HandTracker_init 0))[0 := fdi]"
    by blast
  have fr: "t_prev (filt_d_idx (HandTracker_init 0) ! 0) = None"
    by (simp add: HandTracker_init_def OneEuroFilter_init_def)
  have arg: "dist3d (?h ! 8) (?h ! 4) / hand_size ?h = 0.2"
    unfolding axis_hand_dist s by simp
  from f have "filter_call (filt_d_idx (HandTracker_init 0) ! 0) 0.2 1 = Inr (Some di, fdi)"
    unfolding arg .
  with filter_call_fresh [OF fr, of "0.2" 1] have "x_prev fdi = Some 0.2"
    by auto
  with u have x: "x_prev (filt_d_idx tr' ! 0) = Some 0.2"
    by (simp add: HandTracker_init_def)
  from s s2 s3 p x show ?thesis by simp
qed

section \<open>Frames with two hands\<close>

text \<open>
  One frame of a hand in slot \<open>i\<close> of a well-formed tracker: the filtered thumb-index
  distance \<open>di\<close> is what the pinch machine of the slot receives, it is stored in the
  filter, and it lies between the distance of the frame and the value stored before (it
  is the distance of the frame when the filter is new). Nothing of the other slot is
  touched.
\<close>

lemma frame_idx:
  assumes "tracker_ok tr" and "i < 2" and "20 < length h"
  obtains hs tr' di where
    "process tr h i t = Inr (hs, tr')" "tracker_ok tr'"
    "click_left hs = fst (pinch_machine_step (get_machine tr i ''idx'') di
                            (ext_flags h ! 2 \<or> ext_flags h ! 3) t)"
    "get_machine tr' i ''idx'' = snd (pinch_machine_step (get_machine tr i ''idx'') di
                            (ext_flags h ! 2 \<or> ext_flags h ! 3) t)"
    "x_prev (filt_d_idx tr' ! i) = Some di"
    "case x_prev (filt_d_idx tr ! i) of None \<Rightarrow> di = idx_distance h
     | Some xp \<Rightarrow> min (idx_distance h) xp \<le> di \<and> di \<le> max (idx_distance h) xp"
    "\<forall>j w. j \<noteq> i \<longrightarrow> get_machine tr' j w = get_machine tr j w"
    "\<forall>j. j \<noteq> i \<longrightarrow> filt_d_idx tr' ! j = filt_d_idx tr ! j"
proof -
  let ?q = "ext_flags h ! 2 \<or> ext_flags h ! 3"
  obtain hs tr' where p: "process tr h i t = Inr (hs, tr')" and ok': "tracker_ok tr'"
    using assms by (rule process_total)
  from assms(1) have sl: "slots_ok tr" by (simp add: tracker_ok_def)
  from assms(1,2) have fok: "filter_ok (filt_d_idx tr ! i)"
    and len: "i < length (filt_d_idx tr)"
    by (simp_all add: tracker_ok_def slots_ok_def list_all_nthD)
  from fok obtain v f' where
    c: "filter_call (filt_d_idx tr ! i) (idx_distance h) t = Inr (Some v, f')"
    and xv: "x_prev f' = Some v"
    and bd: "case x_prev (filt_d_idx tr ! i) of None \<Rightarrow> v = idx_distance h
             | Some xp \<Rightarrow> min (idx_distance h) xp \<le> v \<and> v \<le> max (idx_distance h) xp"
    by (rule filter_call_ok)
  show ?thesis
  proof (rule process_pinch_fields [OF p])
    fix di fdi dm fdm
    assume f: "filter_call (filt_d_idx tr ! i) (dist3d (h ! 8) (h ! 4) / hand_size h) t
          = Inr (Some di, fdi)"
      and fd: "filt_d_idx tr' = (filt_d_idx tr)[i := fdi]"
      and cl: "click_left hs = fst (pinch_machine_step (get_machine tr i ''idx'') di ?q t)"
      and gi: "slots_ok tr \<Longrightarrow>
         get_machine tr' i ''idx'' = snd (pinch_machine_step (get_machine tr i ''idx'') di ?q t)"
      and ot: "\<And>j w. j \<noteq> i \<Longrightarrow> get_machine tr' j w = get_machine tr j w"
    from f c have e: "di = v" "fdi = f'" by (simp_all add: idx_distance_def)
    have x: "x_prev (filt_d_idx tr' ! i) = Some di"
      using len by (simp add: fd e xv)
    have b: "case x_prev (filt_d_idx tr ! i) of None \<Rightarrow> di = idx_distance h
             | Some xp \<Rightarrow> min (idx_distance h) xp \<le> di \<and> di \<le> max (idx_distance h) xp"
      unfolding e(1) by (rule bd)
    have o1: "\<forall>j w. j \<noteq> i \<longrightarrow> get_machine tr' j w = get_machine tr j w"
      using ot by blast
    have o2: "\<forall>j. j \<noteq> i \<longrightarrow> filt_d_idx tr' ! j = filt_d_idx tr ! j"
      by (simp add: fd)
    from p ok' cl gi [OF sl] x b o1 o2 show ?thesis by (rule that)
  qed
qed

text \<open>What the loop publishes after the hands were processed.\<close>

lemma loop_iteration_hands:
  assumes "process_hands tr hands 0 t0 = Inr (hss, tr1)" and "hands \<noteq> []"
  shows "\<exists>ft ns. loop_iteration tr t0 True hands t1 = Inr (tr1\<lparr>ftimes := ft, state := ns\<rparr>) \<and>
           num_hands ns = length hss \<and>
           (1 \<le> length hss \<longrightarrow> primary ns = hss ! 0) \<and>
           (2 \<le> length hss \<longrightarrow> secondary ns = hss ! 1)"
proof -
  let ?ft = "deque_append (ftimes tr1) (t1 - t0)"
  let ?a = "TrackerState\<lparr>num_hands := length hss\<rparr>"
  let ?b = "if length hss \<ge> 1 then ?a\<lparr>primary := hss ! 0\<rparr> else ?a"
  let ?c = "if length hss \<ge> 2 then ?b\<lparr>secondary := hss ! 1\<rparr> else ?b"
  let ?ns = "?c\<lparr>fps := (if sum_list ?ft / real (length ?ft) > 0
                          then 1 / (sum_list ?ft / real (length ?ft)) else 0)\<rparr>"
  have l: "loop_iteration tr t0 True hands t1 = Inr (tr1\<lparr>ftimes := ?ft, state := ?ns\<rparr>)"
    using assms by (simp add: loop_iteration_def Let_def)
  have n: "num_hands ?ns = length hss" by simp
  have p: "1 \<le> length hss \<longrightarrow> primary ?ns = hss ! 0" by simp
  have s: "2 \<le> length hss \<longrightarrow> secondary ?ns = hss ! 1" by simp
  from l n p s show ?thesis by blast
qed

lemma loop_two_hands:
  assumes "tracker_ok tr" and "20 < length h" and "20 < length g"
  obtains tr2 di where
    "loop_iteration tr t0 True [h, g] t1 = Inr tr2" "tracker_ok tr2"
    "click_left (primary (get_state tr2))
       = fst (pinch_machine_step (get_machine tr 0 ''idx'') di
                (ext_flags h ! 2 \<or> ext_flags h ! 3) t0)"
    "get_machine tr2 0 ''idx''
       = snd (pinch_machine_step (get_machine tr 0 ''idx'') di
                (ext_flags h ! 2 \<or> ext_flags h ! 3) t0)"
    "x_prev (filt_d_idx tr2 ! 0) = Some di"
    "case x_prev (filt_d_idx tr ! 0) of None \<Rightarrow> di = idx_distance h
     | Some xp \<Rightarrow> min (idx_distance h) xp \<le> di \<and> di \<le> max (idx_distance h) xp"
proof -
  let ?q = "ext_flags h ! 2 \<or> ext_flags h ! 3"
  have i0: "(0::nat) < 2" and i1: "(1::nat) < 2" by simp_all
  obtain hs0 tr0 di where
    p0: "process tr h 0 t0 = Inr (hs0, tr0)" and ok0: "tracker_ok tr0"
    and cl: "click_left hs0 = fst (pinch_machine_step (get_machine tr 0 ''idx'') di ?q t0)"
    and gm: "get_machine tr0 0 ''idx''
               = snd (pinch_machine_step (get_machine tr 0 ''idx'') di ?q t0)"
    and xp: "x_prev (filt_d_idx tr0 ! 0) = Some di"
    and bd: "case x_prev (filt_d_idx tr ! 0) of None \<Rightarrow> di = idx_distance h
             | Some xp \<Rightarrow> min (idx_distance h) xp \<le> di \<and> di \<le> max (idx_distance h) xp"
    using assms(1) i0 assms(2) by (rule frame_idx)
  obtain hs1 tr1 di1 where
    p1: "process tr0 g 1 t0 = Inr (hs1, tr1)" and ok1: "tracker_ok tr1"
    and o1: "\<forall>j w. j \<noteq> 1 \<longrightarrow> get_machine tr1 j w = get_machine tr0 j w"
    and o2: "\<forall>j. j \<noteq> 1 \<longrightarrow> filt_d_idx tr1 ! j = filt_d_idx tr0 ! j"
    using ok0 i1 assms(3) by (rule frame_idx)
  have ph: "process_hands tr [h, g] 0 t0 = Inr ([hs0, hs1], tr1)"
    using p0 p1 by simp
  from loop_iteration_hands [OF ph, of t1] obtain ft ns where
    l: "loop_iteration tr t0 True [h, g] t1 = Inr (tr1\<lparr>ftimes := ft, state := ns\<rparr>)"
    and pr: "primary ns = hs0"
    by auto
  let ?tr2 = "tr1\<lparr>ftimes := ft, state := ns\<rparr>"
  have ok2: "tracker_ok ?tr2"
    using ok1 by (simp add: tracker_ok_def slots_ok_def)
  have c2: "click_left (primary (get_state ?tr2))
              = fst (pinch_machine_step (get_machine tr 0 ''idx'') di ?q t0)"
    using cl pr by (simp add: get_state_def)
  have "get_machine ?tr2 0 ''idx'' = get_machine tr1 0 ''idx''"
    by (simp add: get_machine_def)
  also have "\<dots> = get_machine tr0 0 ''idx''" using o1 by simp
  finally have g2: "get_machine ?tr2 0 ''idx''
              = snd (pinch_machine_step (get_machine tr 0 ''idx'') di ?q t0)"
    using gm by simp
  have x2: "x_prev (filt_d_idx ?tr2 ! 0) = Some di"
    using o2 xp by simp
  from l ok2 c2 g2 x2 bd show ?thesis by (rule that)
qed

text \<open>An open machine with a counter of at most 2 does not click on the next frame.\<close>

lemma open_no_click:
  assumes "pm_state m = Open" and "pm_count m \<le> 2"
  shows "\<not> fst (pinch_machine_step m d q now)"
    and "pm_state (snd (pinch_machine_step m d q now)) = Open"
    and "pm_count (snd (pinch_machine_step m d q now)) \<le> pm_count m + 1"
  using assms by (auto simp: pinch_machine_step_def tracker_consts Let_def)

lemma open_far:
  assumes "pm_state m = Open" and "0.28 \<le> d"
  shows "\<not> fst (pinch_machine_step m d q now)"
    and "pm_state (snd (pinch_machine_step m d q now)) = Open"
    and "pm_count (snd (pinch_machine_step m d q now)) = 0"
  using assms by (auto simp: pinch_machine_step_def tracker_consts Let_def)

lemma run_loop_Cons:
  assumes "loop_iteration tr t0 True hands t1 = Inr tr1"
    and "run_loop tr1 fs = Inr (ss, tr2)"
  shows "run_loop tr ((t0, hands, t1) # fs) = Inr (get_state tr1 # ss, tr2)"
  using assms by simp

text \<open>
  Five frames with two hands on a well-formed tracker whose thumb-index filter of slot 0
  is new and whose thumb-index machine of slot 0 is open: when the thumb-index distances
  of the first hand on the first two frames are 0.5 and 0.4, the filtered distance is 0.5
  on the first frame and at least 0.4 on the second, so the qualifying counter is 0
  after the second frame and at most 3 after the fifth, and no frame returns a click.
\<close>

lemma five_frames_no_click:
  assumes ok: "tracker_ok tr"
    and fresh: "x_prev (filt_d_idx tr ! 0) = None"
    and op: "pm_state (get_machine tr 0 ''idx'') = Open"
    and lh: "20 < length h1" "20 < length h2" "20 < length h3" "20 < length h4"
      "20 < length h5"
    and lg: "20 < length g1" "20 < length g2" "20 < length g3" "20 < length g4"
      "20 < length g5"
    and d: "idx_distance h1 = 0.5" "idx_distance h2 = 0.4"
  shows "\<exists>ss tr'.
           run_loop tr [(a1, [h1, g1], b1), (a2, [h2, g2], b2), (a3, [h3, g3], b3),
                        (a4, [h4, g4], b4), (a5, [h5, g5], b5)] = Inr (ss, tr') \<and>
           map (click_left \<circ> primary) ss = [False, False, False, False, False]"
proof -
  obtain tr1 di1 where
    l1: "loop_iteration tr a1 True [h1, g1] b1 = Inr tr1" and ok1: "tracker_ok tr1"
    and c1: "click_left (primary (get_state tr1))
       = fst (pinch_machine_step (get_machine tr 0 ''idx'') di1
                (ext_flags h1 ! 2 \<or> ext_flags h1 ! 3) a1)"
    and m1: "get_machine tr1 0 ''idx''
       = snd (pinch_machine_step (get_machine tr 0 ''idx'') di1
                (ext_flags h1 ! 2 \<or> ext_flags h1 ! 3) a1)"
    and x1: "x_prev (filt_d_idx tr1 ! 0) = Some di1"
    and b1: "case x_prev (filt_d_idx tr ! 0) of None \<Rightarrow> di1 = idx_distance h1
       | Some xp \<Rightarrow> min (idx_distance h1) xp \<le> di1 \<and> di1 \<le> max (idx_distance h1) xp"
    using ok lh(1) lg(1) by (rule loop_two_hands)
  from b1 fresh d(1) have e1: "di1 = 0.5" by simp
  then have f1: "0.28 \<le> di1" by simp
  note s1 = open_far [OF op f1, of "ext_flags h1 ! 2 \<or> ext_flags h1 ! 3" a1]
  have k1: "\<not> click_left (primary (get_state tr1))" using c1 s1(1) by simp
  have o1: "pm_state (get_machine tr1 0 ''idx'') = Open" using m1 s1(2) by simp
  obtain tr2 di2 where
    l2: "loop_iteration tr1 a2 True [h2, g2] b2 = Inr tr2" and ok2: "tracker_ok tr2"
    and c2: "click_left (primary (get_state tr2))
       = fst (pinch_machine_step (get_machine tr1 0 ''idx'') di2
                (ext_flags h2 ! 2 \<or> ext_flags h2 ! 3) a2)"
    and m2: "get_machine tr2 0 ''idx''
       = snd (pinch_machine_step (get_machine tr1 0 ''idx'') di2
                (ext_flags h2 ! 2 \<or> ext_flags h2 ! 3) a2)"
    and x2: "x_prev (filt_d_idx tr2 ! 0) = Some di2"
    and b2: "case x_prev (filt_d_idx tr1 ! 0) of None \<Rightarrow> di2 = idx_distance h2
       | Some xp \<Rightarrow> min (idx_distance h2) xp \<le> di2 \<and> di2 \<le> max (idx_distance h2) xp"
    using ok1 lh(2) lg(2) by (rule loop_two_hands)
  from b2 x1 have "min (idx_distance h2) di1 \<le> di2" by simp
  then have "min (0.4::real) 0.5 \<le> di2" unfolding d(2) e1 .
  then have f2: "0.28 \<le> di2" by simp
  note s2 = open_far [OF o1 f2, of "ext_flags h2 ! 2 \<or> ext_flags h2 ! 3" a2]
  have k2: "\<not> click_left (primary (get_state tr2))" using c2 s2(1) by simp
  have o2: "pm_state (get_machine tr2 0 ''idx'') = Open"
    and n2: "pm_count (get_machine tr2 0 ''idx'') \<le> 2"
    using m2 s2(2,3) by simp_all
  obtain tr3 di3 where
    l3: "loop_iteration tr2 a3 True [h3, g3] b3 = Inr tr3" and ok3: "tracker_ok tr3"
    and c3: "click_left (primary (get_state tr3))
       = fst (pinch_machine_step (get_machine tr2 0 ''idx'') di3
                (ext_flags h3 ! 2 \<or> ext_flags h3 ! 3) a3)"
    and m3: "get_machine tr3 0 ''idx''
       = snd (pinch_machine_step (get_machine tr2 0 ''idx'') di3
                (ext_flags h3 ! 2 \<or> ext_flags h3 ! 3) a3)"
    using ok2 lh(3) lg(3) by (rule loop_two_hands)
  have z2: "pm_count (get_machine tr2 0 ''idx'') = 0" using m2 s2(3) by simp
  note s3 = open_no_click [OF o2 n2, of di3 "ext_flags h3 ! 2 \<or> ext_flags h3 ! 3" a3]
  have k3: "\<not> click_left (primary (get_state tr3))" using c3 s3(1) by simp
  have o3: "pm_state (get_machine tr3 0 ''idx'') = Open" using m3 s3(2) by simp
  have n3: "pm_count (get_machine tr3 0 ''idx'') \<le> 2" using m3 s3(3) z2 by simp
  have u3: "pm_count (get_machine tr3 0 ''idx'') \<le> 1" using m3 s3(3) z2 by simp
  obtain tr4 di4 where
    l4: "loop_iteration tr3 a4 True [h4, g4] b4 = Inr tr4" and ok4: "tracker_ok tr4"
    and c4: "click_left (primary (get_state tr4))
       = fst (pinch_machine_step (get_machine tr3 0 ''idx'') di4
                (ext_flags h4 ! 2 \<or> ext_flags h4 ! 3) a4)"
    and m4: "get_machine tr4 0 ''idx''
       = snd (pinch_machine_step (get_machine tr3 0 ''idx'') di4
                (ext_flags h4 ! 2 \<or> ext_flags h4 ! 3) a4)"
    using ok3 lh(4) lg(4) by (rule loop_two_hands)
  note s4 = open_no_click [OF o3 n3, of di4 "ext_flags h4 ! 2 \<or> ext_flags h4 ! 3" a4]
  have k4: "\<not> click_left (primary (get_state tr4))" using c4 s4(1) by simp
  have o4: "pm_state (get_machine tr4 0 ''idx'') = Open" using m4 s4(2) by simp
  have n4: "pm_count (get_machine tr4 0 ''idx'') \<le> 2" using m4 s4(3) u3 by simp
  obtain tr5 di5 where
    l5: "loop_iteration tr4 a5 True [h5, g5] b5 = Inr tr5"
    and c5: "click_left (primary (get_state tr5))
       = fst (pinch_machine_step (get_machine tr4 0 ''idx'') di5
                (ext_flags h5 ! 2 \<or> ext_flags h5 ! 3) a5)"
    using ok4 lh(5) lg(5) by (rule loop_two_hands)
  note s5 = open_no_click [OF o4 n4, of di5 "ext_flags h5 ! 2 \<or> ext_flags h5 ! 3" a5]
  have k5: "\<not> click_left (primary (get_state tr5))" using c5 s5(1) by simp
  have r5: "run_loop tr4 [(a5, [h5, g5], b5)] = Inr ([get_state tr5], tr5)"
    using l5 by simp
  have r4: "run_loop tr3 [(a4, [h4, g4], b4), (a5, [h5, g5], b5)]
              = Inr ([get_state tr4, get_state tr5], tr5)"
    using l4 r5 by (rule run_loop_Cons)
  have r3: "run_loop tr2 [(a3, [h3, g3], b3), (a4, [h4, g4], b4), (a5, [h5, g5], b5)]
              = Inr ([get_state tr3, get_state tr4, get_state tr5], tr5)"
    using l3 r4 by (rule run_loop_Cons)
  have r2: "run_loop tr1 [(a2, [h2, g2], b2), (a3, [h3, g3], b3), (a4, [h4, g4], b4),
                          (a5, [h5, g5], b5)]
              = Inr ([get_state tr2, get_state tr3, get_state tr4, get_state tr5], tr5)"
    using l2 r3 by (rule run_loop_Cons)
  have r1: "run_loop tr [(a1, [h1, g1], b1), (a2, [h2, g2], b2), (a3, [h3, g3], b3),
                         (a4, [h4, g4], b4), (a5, [h5, g5], b5)]
              = Inr ([get_state tr1, get_state tr2, get_state tr3, get_state tr4,
                      get_state tr5], tr5)"
    using l1 r2 by (rule run_loop_Cons)
  have "map (click_left \<circ> primary)
          [get_state tr1, get_state tr2, get_state tr3, get_state tr4, get_state tr5]
        = [False, False, False, False, False]"
    using k1 k2 k3 k4 k5 by simp
  with r1 show ?thesis by simp
qed

text \<open>
  The machine on the five distances themselves: from an open machine no call returns a
  click; a sixth call returns one exactly when the third, fourth and fifth call were
  eligible and past the cooldown and the sixth qualifies.
\<close>

lemma scenario_clicks:
  assumes "pm_state m = Open"
  shows "run_clicks m [(0.5, q1, n1), (0.4, q2, n2), (0.2, q3, n3), (0.15, q4, n4),
                       (0.1, q5, n5)] = [False, False, False, False, False]"
    and "run_clicks m [(0.5, q1, n1), (0.4, q2, n2), (0.2, q3, n3), (0.15, q4, n4),
                       (0.1, q5, n5), (d6, q6, n6)]
         = [False, False, False, False, False,
            (q3 \<and> n3 - pm_last m > 0.45) \<and> (q4 \<and> n4 - pm_last m > 0.45) \<and>
            (q5 \<and> n5 - pm_last m > 0.45) \<and> (d6 < 0.28 \<and> q6 \<and> n6 - pm_last m > 0.45)]"
proof -
  let ?m0 = "m\<lparr>pm_count := 0\<rparr>"
  have s1: "pinch_machine_step m 0.5 q1 n1 = (False, ?m0)"
    using assms by (simp add: pinch_machine_step_def tracker_consts Let_def)
  have s2: "pinch_machine_step ?m0 0.4 q2 n2 = (False, ?m0)"
    using assms by (simp add: pinch_machine_step_def tracker_consts Let_def)
  let ?e3 = "q3 \<and> n3 - pm_last m > 0.45"
  let ?e4 = "q4 \<and> n4 - pm_last m > 0.45"
  let ?e5 = "q5 \<and> n5 - pm_last m > 0.45"
  let ?m3 = "m\<lparr>pm_count := (if ?e3 then 1 else 0)\<rparr>"
  have s3: "pinch_machine_step ?m0 0.2 q3 n3 = (False, ?m3)"
    using assms by (simp add: pinch_machine_step_def tracker_consts Let_def)
  let ?m4 = "m\<lparr>pm_count := (if ?e4 then (if ?e3 then 2 else 1) else 0)\<rparr>"
  have s4: "pinch_machine_step ?m3 0.15 q4 n4 = (False, ?m4)"
    using assms by (simp add: pinch_machine_step_def tracker_consts Let_def)
  let ?m5 = "m\<lparr>pm_count := (if ?e5 then (if ?e4 then (if ?e3 then 3 else 2) else 1) else 0)\<rparr>"
  have s5: "pinch_machine_step ?m4 0.1 q5 n5 = (False, ?m5)"
    using assms by (simp add: pinch_machine_step_def tracker_consts Let_def)
  have s6: "fst (pinch_machine_step ?m5 d6 q6 n6)
              = (?e3 \<and> ?e4 \<and> ?e5 \<and> (d6 < 0.28 \<and> q6 \<and> n6 - pm_last m > 0.45))"
    using assms by (auto simp: pinch_machine_step_def tracker_consts Let_def)
  show "run_clicks m [(0.5, q1, n1), (0.4, q2, n2), (0.2, q3, n3), (0.15, q4, n4),
                       (0.1, q5, n5)] = [False, False, False, False, False]"
    unfolding run_clicks.simps s1 s2 s3 s4 s5 fst_conv snd_conv by simp
  show "run_clicks m [(0.5, q1, n1), (0.4, q2, n2), (0.2, q3, n3), (0.15, q4, n4),
                       (0.1, q5, n5), (d6, q6, n6)]
         = [False, False, False, False, False,
            (q3 \<and> n3 - pm_last m > 0.45) \<and> (q4 \<and> n4 - pm_last m > 0.45) \<and>
            (q5 \<and> n5 - pm_last m > 0.45) \<and> (d6 < 0.28 \<and> q6 \<and> n6 - pm_last m > 0.45)]"
    unfolding run_clicks.simps s1 s2 s3 s4 s5 s6 fst_conv snd_conv by simp
qed

lemma axis_hand_idx_distance:
  assumes "0.01 \<le> s" and "0 \<le> d"
  shows "idx_distance (axis_hand s d) = d / s"
  using assms by (simp add: idx_distance_def axis_hand_dist axis_hand_size)

lemma axis_hand_can_pinch: "s \<noteq> 0 \<Longrightarrow> can_pinch (axis_hand s d)"
  by (simp add: can_pinch_def axis_hand_ext)

lemma scenario_hands:
  "idx_distance (axis_hand 1 0.5) = 0.5" "idx_distance (axis_hand 1 0.4) = 0.4"
  "idx_distance (axis_hand 1 0.2) = 0.2" "idx_distance (axis_hand 1 0.15) = 0.15"
  "idx_distance (axis_hand 1 0.1) = 0.1"
  by (simp_all add: axis_hand_idx_distance)

lemma HandTracker_init_fresh:
  "x_prev (filt_d_idx (HandTracker_init t_c) ! 0) = None"
  "pm_state (get_machine (HandTracker_init t_c) 0 ''idx'') = Open"
  by (simp_all add: HandTracker_init_def OneEuroFilter_init_def get_machine_def)

text \<open>
  Claim C3, as stated, on the five frames \<open>scenario_frames\<close> given to a new tracker: the
  first hand has the thumb-index distances 0.5, 0.4, 0.2, 0.15 and 0.1, its ring finger
  is extended on every frame, the frames are 1/30 seconds apart, and more than 0.45
  seconds have passed since the click time 0 of the new tracker; yet \<open>click_left\<close> of
  the primary hand is not set on the fifth frame. Nor does the fifth call click when the
  machine receives the five distances themselves: only three of them are below 0.28.
\<close>

theorem scenario_click_counterexample:
  "map (idx_distance \<circ> hd \<circ> fst \<circ> snd) scenario_frames = [0.5, 0.4, 0.2, 0.15, 0.1] \<and>
   map (can_pinch \<circ> hd \<circ> fst \<circ> snd) scenario_frames = [True, True, True, True, True] \<and>
   map (length \<circ> fst \<circ> snd) scenario_frames = [2, 2, 2, 2, 2] \<and>
   map fst scenario_frames = [1, 1 + 1 / 30, 1 + 2 / 30, 1 + 3 / 30, 1 + 4 / 30] \<and>
   (1 :: real) - last_lclick (HandTracker_init 0) ! 0 > 0.45 \<and>
   \<not> isl (run_loop (HandTracker_init 0) scenario_frames) \<and>
   length (fst (projr (run_loop (HandTracker_init 0) scenario_frames))) = 5 \<and>
   \<not> click_left (primary (fst (projr (run_loop (HandTracker_init 0) scenario_frames)) ! 4)) \<and>
   fst (run_pinch (HandTracker_init 0) 0 ''idx''
          [(0.5, True, 1), (0.4, True, 1 + 1 / 30), (0.2, True, 1 + 2 / 30),
           (0.15, True, 1 + 3 / 30), (0.1, True, 1 + 4 / 30)])
     = [False, False, False, False, False]"
proof -
  have a: "map (idx_distance \<circ> hd \<circ> fst \<circ> snd) scenario_frames = [0.5, 0.4, 0.2, 0.15, 0.1]"
    unfolding scenario_frames_def list.map comp_def fst_conv snd_conv list.sel scenario_hands
    by (rule refl)
  have b: "map (can_pinch \<circ> hd \<circ> fst \<circ> snd) scenario_frames = [True, True, True, True, True]"
    by (simp add: scenario_frames_def axis_hand_can_pinch)
  have c: "map (length \<circ> fst \<circ> snd) scenario_frames = [2, 2, 2, 2, 2]"
    by (simp add: scenario_frames_def)
  have d: "map fst scenario_frames = [1, 1 + 1 / 30, 1 + 2 / 30, 1 + 3 / 30, 1 + 4 / 30]"
    by (simp add: scenario_frames_def)
  have e: "(1 :: real) - last_lclick (HandTracker_init 0) ! 0 > 0.45"
    by (simp add: HandTracker_init_def)
  from five_frames_no_click [OF HandTracker_init_ok HandTracker_init_fresh,
      where ?h1.0 = "axis_hand 1 0.5" and ?h2.0 = "axis_hand 1 0.4"
        and ?h3.0 = "axis_hand 1 0.2" and ?h4.0 = "axis_hand 1 0.15"
        and ?h5.0 = "axis_hand 1 0.1"
        and ?g1.0 = "axis_hand 1 0.5" and ?g2.0 = "axis_hand 1 0.5"
        and ?g3.0 = "axis_hand 1 0.5" and ?g4.0 = "axis_hand 1 0.5"
        and ?g5.0 = "axis_hand 1 0.5",
      unfolded axis_hand_length, OF _ _ _ _ _ _ _ _ _ _ scenario_hands(1,2),
      of 0 1 "1 + 0.01" "1 + 1 / 30" "1 + 1 / 30 + 0.01" "1 + 2 / 30" "1 + 2 / 30 + 0.01"
        "1 + 3 / 30" "1 + 3 / 30 + 0.01" "1 + 4 / 30" "1 + 4 / 30 + 0.01"]
  obtain ss tr' where
    r: "run_loop (HandTracker_init 0) scenario_frames = Inr (ss, tr')"
    and k: "map (click_left \<circ> primary) ss = [False, False, False, False, False]"
    unfolding scenario_frames_def by auto
  from k have "length (map (click_left \<circ> primary) ss)
                 = length [False, False, False, False, False]"
    by (rule arg_cong)
  then have l: "length ss = 5" by simp
  from k have "map (click_left \<circ> primary) ss ! 4 = False" by simp
  with l have f: "\<not> click_left (primary (ss ! 4))" by simp
  have m: "pm_state (get_machine (HandTracker_init 0) 0 ''idx'') = Open"
    by (rule HandTracker_init_fresh)
  have i2: "(0::nat) < 2" by simp
  have g: "fst (run_pinch (HandTracker_init 0) 0 ''idx''
          [(0.5, True, 1), (0.4, True, 1 + 1 / 30), (0.2, True, 1 + 2 / 30),
           (0.15, True, 1 + 3 / 30), (0.1, True, 1 + 4 / 30)])
     = [False, False, False, False, False]"
    unfolding run_pinch_machine(1) [OF HandTracker_init_slots i2]
    by (rule scenario_clicks(1) [OF m])
  from a b c d e r l f g show ?thesis by simp
qed

text \<open>
  Claim C3, amended. For five frames with two hands given to a new tracker, where the
  thumb-index distances of the first hand are 0.5, 0.4, 0.2, 0.15 and 0.1, every
  iteration of the loop publishes a snapshot, and \<open>click_left\<close> of the primary hand is
  not set on any of the five frames, whatever the extension flags and the clock values:
  the filtered distance is 0.5 on the first frame and at least 0.4 on the second, so at
  most the last three frames qualify, one fewer than the debounce count. The same holds
  when the five distances are what an open machine of a tracker receives from the
  filter: no call returns a click, and a sixth call returns one exactly when the third,
  fourth and fifth call were eligible and past the cooldown and the sixth qualifies.
\<close>

theorem scenario_five_frames:
  assumes "20 < length h1" and "20 < length h2" and "20 < length h3" and "20 < length h4"
    and "20 < length h5"
    and "20 < length g1" and "20 < length g2" and "20 < length g3" and "20 < length g4"
    and "20 < length g5"
    and "idx_distance h1 = 0.5" and "idx_distance h2 = 0.4" and "idx_distance h3 = 0.2"
    and "idx_distance h4 = 0.15" and "idx_distance h5 = 0.1"
  shows "(\<exists>ss tr'.
            run_loop (HandTracker_init t_c)
              [(a1, [h1, g1], b1), (a2, [h2, g2], b2), (a3, [h3, g3], b3),
               (a4, [h4, g4], b4), (a5, [h5, g5], b5)] = Inr (ss, tr') \<and>
            map (click_left \<circ> primary) ss = [False, False, False, False, False]) \<and>
         (slots_ok tr \<and> i < 2 \<and> pm_state (get_machine tr i w) = Open \<longrightarrow>
            fst (run_pinch tr i w
                   [(0.5, q1, n1), (0.4, q2, n2), (0.2, q3, n3), (0.15, q4, n4),
                    (0.1, q5, n5)])
              = [False, False, False, False, False] \<and>
            fst (run_pinch tr i w
                   [(0.5, q1, n1), (0.4, q2, n2), (0.2, q3, n3), (0.15, q4, n4),
                    (0.1, q5, n5), (d6, q6, n6)])
              = [False, False, False, False, False,
                 (q3 \<and> n3 - pm_last (get_machine tr i w) > 0.45) \<and>
                 (q4 \<and> n4 - pm_last (get_machine tr i w) > 0.45) \<and>
                 (q5 \<and> n5 - pm_last (get_machine tr i w) > 0.45) \<and>
                 (d6 < 0.28 \<and> q6 \<and> n6 - pm_last (get_machine tr i w) > 0.45)])"
proof -
  have A: "\<exists>ss tr'.
            run_loop (HandTracker_init t_c)
              [(a1, [h1, g1], b1), (a2, [h2, g2], b2), (a3, [h3, g3], b3),
               (a4, [h4, g4], b4), (a5, [h5, g5], b5)] = Inr (ss, tr') \<and>
            map (click_left \<circ> primary) ss = [False, False, False, False, False]"
    using HandTracker_init_ok HandTracker_init_fresh assms(1-12)
    by (rule five_frames_no_click)
  have B: "slots_ok tr \<and> i < 2 \<and> pm_state (get_machine tr i w) = Open \<longrightarrow>
            fst (run_pinch tr i w
                   [(0.5, q1, n1), (0.4, q2, n2), (0.2, q3, n3), (0.15, q4, n4),
                    (0.1, q5, n5)])
              = [False, False, False, False, False] \<and>
            fst (run_pinch tr i w
                   [(0.5, q1, n1), (0.4, q2, n2), (0.2, q3, n3), (0.15, q4, n4),
                    (0.1, q5, n5), (d6, q6, n6)])
              = [False, False, False, False, False,
                 (q3 \<and> n3 - pm_last (get_machine tr i w) > 0.45) \<and>
                 (q4 \<and> n4 - pm_last (get_machine tr i w) > 0.45) \<and>
                 (q5 \<and> n5 - pm_last (get_machine tr i w) > 0.45) \<and>
                 (d6 < 0.28 \<and> q6 \<and> n6 - pm_last (get_machine tr i w) > 0.45)]"
  proof
    assume h: "slots_ok tr \<and> i < 2 \<and> pm_state (get_machine tr i w) = Open"
    then have s: "slots_ok tr" and i: "i < 2"
      and m: "pm_state (get_machine tr i w) = Open"
      by simp_all
    show "fst (run_pinch tr i w
                   [(0.5, q1, n1), (0.4, q2, n2), (0.2, q3, n3), (0.15, q4, n4),
                    (0.1, q5, n5)])
              = [False, False, False, False, False] \<and>
            fst (run_pinch tr i w
                   [(0.5, q1, n1), (0.4, q2, n2), (0.2, q3, n3), (0.15, q4, n4),
                    (0.1, q5, n5), (d6, q6, n6)])
              = [False, False, False, False, False,
                 (q3 \<and> n3 - pm_last (get_machine tr i w) > 0.45) \<and>
                 (q4 \<and> n4 - pm_last (get_machine tr i w) > 0.45) \<and>
                 (q5 \<and> n5 - pm_last (get_machine tr i w) > 0.45) \<and>
                 (d6 < 0.28 \<and> q6 \<and> n6 - pm_last (get_machine tr i w) > 0.45)]"
      unfolding run_pinch_machine(1) [OF s i]
      using scenario_clicks [OF m] by (intro conjI)
  qed
  from A B show ?thesis by (intro conjI)
qed

theorem scenario_five_frames_witness:
  "\<not> isl (run_loop (HandTracker_init 0) scenario_frames) \<and>
   map (click_left \<circ> primary) (fst (projr (run_loop (HandTracker_init 0) scenario_frames)))
     = [False, False, False, False, False] \<and>
   fst (run_pinch (HandTracker_init 0) 0 ''idx''
          [(0.5, True, 1), (0.4, True, 1 + 1 / 30), (0.2, True, 1 + 2 / 30),
           (0.15, True, 1 + 3 / 30), (0.1, True, 1 + 4 / 30), (0.1, True, 1 + 5 / 30)])
     = [False, False, False, False, False, True]"
proof -
  have i2: "(0::nat) < 2" by simp
  have l: "20 < length (axis_hand s d)" for s d by (simp add: axis_hand_length)
  note t = scenario_five_frames [where ?g1.0 = "axis_hand 1 0.5" and ?g2.0 = "axis_hand 1 0.5"
        and ?g3.0 = "axis_hand 1 0.5" and ?g4.0 = "axis_hand 1 0.5"
        and ?g5.0 = "axis_hand 1 0.5" and t_c = 0
        and ?a1.0 = 1 and ?b1.0 = "1 + 0.01"
        and ?a2.0 = "1 + 1 / 30" and ?b2.0 = "1 + 1 / 30 + 0.01"
        and ?a3.0 = "1 + 2 / 30" and ?b3.0 = "1 + 2 / 30 + 0.01"
        and ?a4.0 = "1 + 3 / 30" and ?b4.0 = "1 + 3 / 30 + 0.01"
        and ?a5.0 = "1 + 4 / 30" and ?b5.0 = "1 + 4 / 30 + 0.01"
        and tr = "HandTracker_init 0" and i = 0 and w = "''idx''"
        and ?q1.0 = True and ?n1.0 = 1 and ?q2.0 = True and ?n2.0 = "1 + 1 / 30"
        and ?q3.0 = True and ?n3.0 = "1 + 2 / 30" and ?q4.0 = True and ?n4.0 = "1 + 3 / 30"
        and ?q5.0 = True and ?n5.0 = "1 + 4 / 30"
        and ?d6.0 = "0.1" and ?q6.0 = True and ?n6.0 = "1 + 5 / 30",
      OF l l l l l l l l l l scenario_hands]
  from t [THEN conjunct1] obtain ss tr' where
    r: "run_loop (HandTracker_init 0) scenario_frames = Inr (ss, tr')"
    and k: "map (click_left \<circ> primary) ss = [False, False, False, False, False]"
    unfolding scenario_frames_def by auto
  have m: "slots_ok (HandTracker_init 0) \<and> (0::nat) < 2 \<and>
           pm_state (get_machine (HandTracker_init 0) 0 ''idx'') = Open"
    using HandTracker_init_slots [of 0] HandTracker_init_fresh(2) [of 0] by simp
  have pl: "pm_last (get_machine (HandTracker_init 0) 0 ''idx'') = 0"
    by (simp add: get_machine_def HandTracker_init_def)
  note t2 = t [THEN conjunct2, THEN mp, OF m, THEN conjunct2]
  from t2 have g: "fst (run_pinch (HandTracker_init 0) 0 ''idx''
          [(0.5, True, 1), (0.4, True, 1 + 1 / 30), (0.2, True, 1 + 2 / 30),
           (0.15, True, 1 + 3 / 30), (0.1, True, 1 + 4 / 30), (0.1, True, 1 + 5 / 30)])
     = [False, False, False, False, False, True]"
    unfolding pl by simp
  from r k g show ?thesis by simp
qed

end
